theory Spec2Isabelle
  imports Complex_Main "HOL-Library.Multiset"
begin

section \<open>Values and errors\<close>

text \<open>
  The exceptions the modelled code can raise. \<open>core.quit()\<close> ends the process; the
  constructor says which check of the generator called it.
\<close>

datatype py_error =
    ZeroDivisionError
  | IndexError
  | ValueError
  | KeyError
  | QuitMissingDirectory
  | QuitEmptyDirectory
  | QuitNotEnoughFiles
  | QuitTooFewWords

definition bind_err :: "py_error + 'a \<Rightarrow> ('a \<Rightarrow> py_error + 'b) \<Rightarrow> py_error + 'b" where
  "bind_err m f = (case m of Inl e \<Rightarrow> Inl e | Inr x \<Rightarrow> f x)"

text \<open>
  A Python float is a real number here, and a result of the inverse-normal transform is
  a finite number, plus or minus infinity, or not a number. The quotients of row counts
  in \<open>compute_rate_results\<close> are kept exact. The two operations of the edge
  correction of \<open>dprime\<close> are rounded as the machine rounds them, since whether a
  corrected rate is 1 or below 1 depends on it.
\<close>

datatype fval = Fin real | PInf | NInf | NaN

fun fsub :: "fval \<Rightarrow> fval \<Rightarrow> fval" where
  "fsub NaN y = NaN"
| "fsub x NaN = NaN"
| "fsub (Fin a) (Fin b) = Fin (a - b)"
| "fsub (Fin a) PInf = NInf"
| "fsub (Fin a) NInf = PInf"
| "fsub PInf PInf = NaN"
| "fsub PInf y = PInf"
| "fsub NInf NInf = NaN"
| "fsub NInf y = NInf"

text \<open>Python's \<open>a / b\<close> on integers: true division, raising on a zero divisor.\<close>

definition py_div :: "real \<Rightarrow> real \<Rightarrow> py_error + real" where
  "py_div a b = (if b = 0 then Inl ZeroDivisionError else Inr (a / b))"

subsection \<open>Rounding to double precision\<close>

text \<open>
  IEEE 754 binary64, round to nearest, ties to even. \<open>round_half_even\<close> rounds a
  real number to an integer; \<open>binade x\<close> is the exponent \<open>e\<close> with
  \<open>2^e \<le> x < 2^(e+1)\<close> of a positive \<open>x\<close>; \<open>round_double x\<close> rounds to a
  multiple of the spacing \<open>2^(e-52)\<close> of the doubles around \<open>x\<close>, the exponent
  not below -1022 (subnormal numbers, underflow to 0). Overflow to infinity is not
  modelled: it needs a magnitude of \<open>2^1024\<close>, and \<open>dprime\<close> rounds only
  \<open>1/(2*n_trials)\<close> and \<open>1 - 1/(2*n_trials)\<close>.
\<close>

definition round_half_even :: "real \<Rightarrow> int" where
  "round_half_even z =
     (let f = \<lfloor>z\<rfloor> in
      if z - of_int f < 1/2 then f
      else if 1/2 < z - of_int f then f + 1
      else if even f then f else f + 1)"

function binade :: "real \<Rightarrow> int" where
  "binade x =
     (if x \<le> 0 then 0
      else if 2 \<le> x then binade (x / 2) + 1
      else if x < 1 then binade (2 * x) - 1
      else 0)"
  by pat_completeness auto
termination
proof (relation "measure (\<lambda>x. if 1 \<le> x then nat \<lfloor>log 2 x\<rfloor> else nat \<lceil>- log 2 x\<rceil>)")
  show "wf (measure (\<lambda>x. if 1 \<le> x then nat \<lfloor>log 2 x\<rfloor> else nat \<lceil>- log 2 x\<rceil>))" by simp
next
  fix x :: real
  assume a: "\<not> x \<le> 0" "2 \<le> x"
  have l: "log 2 (x / 2) = log 2 x - 1" using a by (simp add: log_divide)
  have "1 \<le> log 2 x" using a by (simp add: le_log_iff)
  then have "1 \<le> \<lfloor>log 2 x\<rfloor>" by linarith
  then show "(x / 2, x) \<in> measure (\<lambda>x. if 1 \<le> x then nat \<lfloor>log 2 x\<rfloor> else nat \<lceil>- log 2 x\<rceil>)"
    using a l by simp
next
  fix x :: real
  assume a: "\<not> x \<le> 0" "\<not> 2 \<le> x" "x < 1"
  have l: "log 2 (2 * x) = 1 + log 2 x" using a by (simp add: log_mult)
  have neg: "log 2 x < 0" using a by simp
  show "(2 * x, x) \<in> measure (\<lambda>x. if 1 \<le> x then nat \<lfloor>log 2 x\<rfloor> else nat \<lceil>- log 2 x\<rceil>)"
  proof (cases "1 \<le> 2 * x")
    case True
    then have "0 \<le> log 2 (2 * x)" by simp
    moreover have "log 2 (2 * x) < 1" using l neg by simp
    ultimately have "\<lfloor>log 2 (2 * x)\<rfloor> = 0" by linarith
    moreover have "0 < \<lceil>- log 2 x\<rceil>" using neg by linarith
    ultimately show ?thesis using a True by simp
  next
    case False
    then have "log 2 (2 * x) < 0" using a by simp
    then have "1 < - log 2 x" using l by simp
    then have "\<lceil>- log 2 (2 * x)\<rceil> < \<lceil>- log 2 x\<rceil> \<and> 0 < \<lceil>- log 2 x\<rceil>" using l by (simp add: ceiling_diff_one) linarith
    then show ?thesis using a False by simp
  qed
qed

declare binade.simps [simp del]

definition round_double :: "real \<Rightarrow> real" where
  "round_double x =
     (let u = 2 powi (max (binade \<bar>x\<bar>) (- 1022) - 52)
      in u * of_int (round_half_even (x / u)))"

text \<open>
  \<open>a / b\<close> of Python on two integers, as a float: the quotient correctly rounded,
  raising on a zero divisor.
\<close>

definition float_div :: "real \<Rightarrow> real \<Rightarrow> py_error + real" where
  "float_div a b = (if b = 0 then Inl ZeroDivisionError else Inr (round_double (a / b)))"

section \<open>Signal-detection analysis (analyse.py, dprime_complete.py)\<close>

subsection \<open>dprime\<close>

text \<open>
  \<open>scipy.stats.norm.ppf\<close> is a library function. Its values inside the open unit
  interval are a parameter \<open>quantile\<close> of the model; at the ends and outside the
  interval it returns what the library documents: minus infinity at 0, plus infinity at
  1, not-a-number elsewhere.
\<close>

definition norm_ppf :: "(real \<Rightarrow> real) \<Rightarrow> real \<Rightarrow> fval" where
  "norm_ppf quantile q =
     (if q = 0 then NInf
      else if q = 1 then PInf
      else if 0 < q \<and> q < 1 then Fin (quantile q)
      else NaN)"

text \<open>
  The four correction statements of \<open>dprime\<close>, in the order of the source. Each is an
  \<open>if\<close> of its own (not an \<open>elif\<close>), so the second test reads the value the first
  one may have written. \<open>1/(2*n_trials)\<close> raises when \<open>n_trials\<close> is 0; the
  quotient and the difference \<open>1 - 1/(2*n_trials)\<close> are floats, each rounded.
\<close>

definition corrected_rates :: "real \<Rightarrow> real \<Rightarrow> int \<Rightarrow> py_error + real \<times> real" where
  "corrected_rates hit_rate fa_rate n_trials =
     bind_err (if hit_rate = 1
               then bind_err (float_div 1 (2 * real_of_int n_trials))
                      (\<lambda>d. Inr (round_double (1 - d)))
               else Inr hit_rate) (\<lambda>hit_rate1.
     bind_err (if hit_rate1 = 0
               then float_div 1 (2 * real_of_int n_trials)
               else Inr hit_rate1) (\<lambda>hit_rate2.
     bind_err (if fa_rate = 1
               then bind_err (float_div 1 (2 * real_of_int n_trials))
                      (\<lambda>d. Inr (round_double (1 - d)))
               else Inr fa_rate) (\<lambda>fa_rate1.
     bind_err (if fa_rate1 = 0
               then float_div 1 (2 * real_of_int n_trials)
               else Inr fa_rate1) (\<lambda>fa_rate2.
     Inr (hit_rate2, fa_rate2)))))"

definition dprime :: "(real \<Rightarrow> real) \<Rightarrow> real \<Rightarrow> real \<Rightarrow> int \<Rightarrow> py_error + fval" where
  "dprime quantile hit_rate fa_rate n_trials =
     bind_err (corrected_rates hit_rate fa_rate n_trials) (\<lambda>(h, f).
       Inr (fsub (norm_ppf quantile h) (norm_ppf quantile f)))"

subsection \<open>chi_square_from_rates\<close>

text \<open>
  \<open>scipy.stats.chi2_contingency\<close> is a library function and a parameter of the model.
  It takes the observed table and the \<open>correction\<close> flag and returns
  \<open>(chi2, p, dof, expected)\<close>, or raises. The source calls it with the table only, so
  with the library's default \<open>correction=True\<close>: Yates' continuity correction, which
  the library applies when the table has one degree of freedom, as a 2 by 2 table has.
\<close>

type_synonym contingency_test =
  "real list list \<Rightarrow> bool \<Rightarrow> py_error + real \<times> real \<times> nat \<times> real list list"

definition chi_square_from_rates ::
  "contingency_test \<Rightarrow> real \<Rightarrow> real \<Rightarrow> int \<Rightarrow> py_error + real \<times> real" where
  "chi_square_from_rates chi2_contingency hit_rate fa_rate n_trials =
     (let n_noise = real_of_int n_trials / 2;
          n_signal = n_noise;
          obs = [[hit_rate * n_signal, (1 - hit_rate) * n_signal],
                 [fa_rate * n_noise, (1 - fa_rate) * n_noise]]
      in bind_err (chi2_contingency obs True) (\<lambda>(chi2, p, dof, expected). Inr (chi2, p)))"

subsection \<open>signif_marker\<close>

text \<open>analyse.py\<close>

definition signif_marker :: "real \<Rightarrow> string" where
  "signif_marker p =
     (if p < 0.001 then ''***''
      else if p < 0.01 then ''**''
      else if p < 0.05 then ''*''
      else '''')"


subsection \<open>compute_rate_results\<close>

text \<open>
  A row of the data frame: the two columns the analysis reads, and the \<open>signal_type\<close>
  column that the detection experiment writes beside them and the analysis does not read.
\<close>

record outcome_row =
  col_compression_level :: real
  col_trial_outcome :: string
  col_signal_type :: string

text \<open>\<open>Series.unique()\<close>: the distinct values in order of first appearance.\<close>

definition unique :: "'a list \<Rightarrow> 'a list" where
  "unique xs = rev (remdups (rev xs))"

text \<open>\<open>df[df["compression_level"] == rate]\<close>\<close>

definition df_rate_of :: "outcome_row list \<Rightarrow> real \<Rightarrow> outcome_row list" where
  "df_rate_of df rate = filter (\<lambda>r. col_compression_level r = rate) df"

definition outcome_count :: "string \<Rightarrow> outcome_row list \<Rightarrow> nat" where
  "outcome_count outcome df_rate = length (filter (\<lambda>r. col_trial_outcome r = outcome) df_rate)"

text \<open>The two rate assignments of the loop body: \<open>(hit_rate, false_alarm_rate)\<close>.\<close>

definition stratum_rates :: "outcome_row list \<Rightarrow> py_error + real \<times> real" where
  "stratum_rates df_rate =
     bind_err (py_div (real (outcome_count ''Hit'' df_rate)) (real (length df_rate)))
       (\<lambda>hit_rate.
     bind_err (py_div (real (outcome_count ''False Alarm'' df_rate)) (real (length df_rate)))
       (\<lambda>false_alarm_rate.
     Inr (hit_rate, false_alarm_rate)))"

text \<open>
  A result row. \<open>row_d_prime\<close> is the formatted column: the number (printed with two
  decimals in the source) and the significance marker appended to it.
\<close>

record stratum_result =
  row_compression_rate :: real
  row_d_prime :: "fval \<times> string"
  row_d_prime_raw :: fval
  row_hit_rate :: real
  row_fa_rate :: real
  row_chi2 :: real
  row_p :: real
  row_n_trials :: nat

definition stratum_row ::
  "(real \<Rightarrow> real) \<Rightarrow> contingency_test \<Rightarrow> outcome_row list \<Rightarrow> real
     \<Rightarrow> py_error + stratum_result" where
  "stratum_row quantile chi2_contingency df rate =
     (let df_rate = df_rate_of df rate in
      bind_err (stratum_rates df_rate) (\<lambda>(hit_rate, false_alarm_rate).
      bind_err (dprime quantile hit_rate false_alarm_rate (int (length df_rate))) (\<lambda>d_prime.
      bind_err (chi_square_from_rates chi2_contingency hit_rate false_alarm_rate
                  (int (length df_rate))) (\<lambda>(chi2, p).
      Inr \<lparr> row_compression_rate = rate,
            row_d_prime = (d_prime, signif_marker p),
            row_d_prime_raw = d_prime,
            row_hit_rate = hit_rate,
            row_fa_rate = false_alarm_rate,
            row_chi2 = chi2,
            row_p = p,
            row_n_trials = length df_rate \<rparr>))))"

fun rows_loop ::
  "(real \<Rightarrow> py_error + stratum_result) \<Rightarrow> real list \<Rightarrow> stratum_result list
     \<Rightarrow> py_error + stratum_result list" where
  "rows_loop mk [] results = Inr results"
| "rows_loop mk (rate # rates) results =
     bind_err (mk rate) (\<lambda>new_row. rows_loop mk rates (results @ [new_row]))"

text \<open>
  \<open>compute_rate_results\<close> of analyse.py. With no row at all, \<open>results\<close> stays
  the empty frame, which has no column \<open>compression_rate\<close> to convert and sort by:
  the lookup raises. dprime_complete.py has the same loop, with the columns
  \<open>compression_rate\<close>, \<open>d_prime\<close>, \<open>chi2\<close> and \<open>p\<close> only and its own marker.
\<close>

definition compute_rate_results ::
  "(real \<Rightarrow> real) \<Rightarrow> contingency_test \<Rightarrow> outcome_row list
     \<Rightarrow> py_error + stratum_result list" where
  "compute_rate_results quantile chi2_contingency df =
     (let list_of_compression_rates = unique (map col_compression_level df) in
      bind_err (rows_loop (stratum_row quantile chi2_contingency df)
                  list_of_compression_rates [])
        (\<lambda>results.
           if results = [] then Inl KeyError
           else Inr (sort_key row_compression_rate results)))"

subsection \<open>The rates and the correction as the specification words them\<close>

text \<open>
  Hits over signal-present trials and false alarms over signal-absent trials of a
  stratum; a trial's kind is its \<open>signal_type\<close> column.
\<close>

definition present_count :: "outcome_row list \<Rightarrow> nat" where
  "present_count df_rate = length (filter (\<lambda>r. col_signal_type r = ''present'') df_rate)"

definition absent_count :: "outcome_row list \<Rightarrow> nat" where
  "absent_count df_rate = length (filter (\<lambda>r. col_signal_type r = ''absent'') df_rate)"

definition spec_hit_rate :: "outcome_row list \<Rightarrow> real" where
  "spec_hit_rate df_rate = real (outcome_count ''Hit'' df_rate) / real (present_count df_rate)"

definition spec_fa_rate :: "outcome_row list \<Rightarrow> real" where
  "spec_fa_rate df_rate =
     real (outcome_count ''False Alarm'' df_rate) / real (absent_count df_rate)"

text \<open>
  The edge correction of one rate with its trial count \<open>N\<close>: in exact arithmetic,
  and with the quotient and the difference rounded to double precision.
\<close>

definition edge_corrected :: "real \<Rightarrow> int \<Rightarrow> real" where
  "edge_corrected r N =
     (if r = 1 then 1 - 1 / (2 * real_of_int N)
      else if r = 0 then 1 / (2 * real_of_int N)
      else r)"

definition edge_corrected_double :: "real \<Rightarrow> int \<Rightarrow> real" where
  "edge_corrected_double r N =
     (if r = 1 then round_double (1 - round_double (1 / (2 * real_of_int N)))
      else if r = 0 then round_double (1 / (2 * real_of_int N))
      else r)"

text \<open>
  The contingency table: rows signal and noise, columns detected and not detected, with
  \<open>nSignal = nNoise =\<close> half the stratum's trial count.
\<close>

definition spec_contingency_table :: "real \<Rightarrow> real \<Rightarrow> int \<Rightarrow> real list list" where
  "spec_contingency_table hitRate faRate n =
     [[hitRate * (real_of_int n / 2), (1 - hitRate) * (real_of_int n / 2)],
      [faRate * (real_of_int n / 2), (1 - faRate) * (real_of_int n / 2)]]"

text \<open>
  The rates that reach the inverse-normal transform when \<open>stratum_row\<close> calls
  \<open>dprime\<close>: the stratum's two rates, corrected with the stratum's row count.
\<close>

definition stratum_corrected_rates :: "outcome_row list \<Rightarrow> py_error + real \<times> real" where
  "stratum_corrected_rates df_rate =
     bind_err (stratum_rates df_rate) (\<lambda>(hit_rate, false_alarm_rate).
       corrected_rates hit_rate false_alarm_rate (int (length df_rate)))"

subsection \<open>Example inputs\<close>

definition mk_row :: "real \<Rightarrow> string \<Rightarrow> string \<Rightarrow> outcome_row" where
  "mk_row level outcome signal =
     \<lparr> col_compression_level = level, col_trial_outcome = outcome, col_signal_type = signal \<rparr>"

text \<open>
  The stratum of the specification's example: seven signal-present trials (six hits, one
  miss) and seven signal-absent trials (five correct rejections, two false alarms).
\<close>

definition example_stratum :: "outcome_row list" where
  "example_stratum =
     replicate 6 (mk_row (3/10) ''Hit'' ''present'') @ [mk_row (3/10) ''Miss'' ''present''] @
     replicate 5 (mk_row (3/10) ''Correct Rejection'' ''absent'') @
     replicate 2 (mk_row (3/10) ''False Alarm'' ''absent'')"

text \<open>
  A stratum of three trials, two signal-present and one signal-absent: two misses and a
  correct rejection.
\<close>

definition two_misses_one_rejection :: "outcome_row list" where
  "two_misses_one_rejection =
     [mk_row (3/10) ''Miss'' ''present'', mk_row (3/10) ''Miss'' ''present'',
      mk_row (3/10) ''Correct Rejection'' ''absent'']"

section \<open>Trial-list generation\<close>

subsection \<open>The random source\<close>

text \<open>
  The generator of Python's \<open>random\<close> module is an input of the model: an infinite
  sequence of raw draws and the position of the next one. \<open>_randbelow(n)\<close> returns a
  number below \<open>n\<close>; the model takes the next raw draw modulo \<open>n\<close>, so that every
  sequence of outcomes is the image of some sequence of raw draws.
\<close>

type_synonym rng = "(nat \<Rightarrow> nat) \<times> nat"

definition randbelow :: "nat \<Rightarrow> rng \<Rightarrow> nat \<times> rng" where
  "randbelow n g = (fst g (snd g) mod n, (fst g, Suc (snd g)))"

text \<open>A computation that draws random numbers and may raise.\<close>

type_synonym 'a gen = "rng \<Rightarrow> py_error + 'a \<times> rng"

definition gen_ret :: "'a \<Rightarrow> 'a gen" where
  "gen_ret x g = Inr (x, g)"

definition gen_raise :: "py_error \<Rightarrow> 'a gen" where
  "gen_raise e g = Inl e"

definition gen_bind :: "'a gen \<Rightarrow> ('a \<Rightarrow> 'b gen) \<Rightarrow> 'b gen" where
  "gen_bind m f g = (case m g of Inl e \<Rightarrow> Inl e | Inr (x, g') \<Rightarrow> f x g')"

text \<open>\<open>random.choice(seq)\<close>: raises on an empty sequence.\<close>

definition choice :: "'a list \<Rightarrow> 'a gen" where
  "choice seq g =
     (if length seq = 0 then Inl IndexError
      else (let (j, g') = randbelow (length seq) g in Inr (seq ! j, g')))"

text \<open>
  \<open>random.shuffle(x)\<close>: for \<open>i\<close> from \<open>len(x) - 1\<close> down to 1, draw \<open>j\<close> below
  \<open>i + 1\<close> and exchange \<open>x[i]\<close> and \<open>x[j]\<close>.
\<close>

fun shuffle_loop :: "nat \<Rightarrow> 'a list \<Rightarrow> rng \<Rightarrow> 'a list \<times> rng" where
  "shuffle_loop 0 x g = (x, g)"
| "shuffle_loop (Suc k) x g =
     (let i = Suc k;
          (j, g') = randbelow (i + 1) g
      in shuffle_loop k (x[i := x ! j, j := x ! i]) g')"

definition shuffle :: "'a list \<Rightarrow> 'a list gen" where
  "shuffle x g = Inr (shuffle_loop (length x - 1) x g)"

text \<open>
  \<open>random.choices(population, k=k)\<close>: \<open>k\<close> independent draws of an index below
  \<open>len(population)\<close>; indexing an empty population raises.
\<close>

fun choices :: "'a list \<Rightarrow> nat \<Rightarrow> 'a list gen" where
  "choices population 0 = gen_ret []"
| "choices population (Suc k) =
     gen_bind (choice population) (\<lambda>x.
     gen_bind (choices population k) (\<lambda>xs. gen_ret (x # xs)))"

subsection \<open>Files and names\<close>

text \<open>
  \<open>os.listdir\<close> is an input of the model: the names in a directory, or \<open>None\<close> where
  the call raises \<open>FileNotFoundError\<close>.
\<close>

type_synonym listing = "string \<Rightarrow> string list option"

definition startswith_dot :: "string \<Rightarrow> bool" where
  "startswith_dot f = (case f of [] \<Rightarrow> False | c # cs \<Rightarrow> c = CHR ''.'')"

definition get_files_from_dir :: "listing \<Rightarrow> string \<Rightarrow> string list option" where
  "get_files_from_dir listdir directory =
     map_option (filter (\<lambda>f. \<not> startswith_dot f)) (listdir directory)"

text \<open>\<open>os.path.join\<close> of two components (POSIX).\<close>

definition path_join :: "string \<Rightarrow> string \<Rightarrow> string" where
  "path_join a b =
     (if b \<noteq> [] \<and> hd b = CHR ''/'' then b
      else if a = [] \<or> last a = CHR ''/'' then a @ b
      else a @ ''/'' @ b)"

text \<open>\<open>str.rfind\<close> of a character: the last index, or -1.\<close>

definition rfind :: "char \<Rightarrow> string \<Rightarrow> int" where
  "rfind c p =
     (case filter (\<lambda>i. p ! i = c) (rev [0..<length p]) of
        [] \<Rightarrow> - 1
      | i # is \<Rightarrow> int i)"

text \<open>
  \<open>os.path.splitext(p)[0]\<close>: cut at the last dot, when that dot comes after the last
  slash and a character other than a dot stands between the two.
\<close>

definition splitext_root :: "string \<Rightarrow> string" where
  "splitext_root p =
     (let sepIndex = rfind CHR ''/'' p;
          dotIndex = rfind CHR ''.'' p
      in if dotIndex > sepIndex \<and>
            dropWhile (\<lambda>c. c = CHR ''.'') (drop (nat (sepIndex + 1)) (take (nat dotIndex) p)) \<noteq> []
         then take (nat dotIndex) p
         else p)"

text \<open>\<open>split('_')[0]\<close> is the text before the first underscore.\<close>

definition get_word_from_filename :: "string \<Rightarrow> string" where
  "get_word_from_filename filename = takeWhile (\<lambda>c. c \<noteq> CHR ''_'') (splitext_root filename)"

subsection \<open>The loop over the compression levels (d-prime_detection.py, main_typing_experiment.py)\<close>

text \<open>The body of \<open>for f in files: ...append(...)\<close>: the trials appended, in order.\<close>

fun for_each :: "('a \<Rightarrow> 't list gen) \<Rightarrow> 'a list \<Rightarrow> 't list gen" where
  "for_each body [] = gen_ret []"
| "for_each body (f # fs) =
     gen_bind (body f) (\<lambda>ts.
     gen_bind (for_each body fs) (\<lambda>us. gen_ret (ts @ us)))"

text \<open>
  The two control experiments share the loop over \<open>COMPRESSION_LEVELS\<close> word for word;
  they differ in the trials built for a file (\<open>trials_for\<close>). The module constants
  (the levels, the practice and the main count per folder) are arguments.
\<close>

fun level_loop ::
  "listing \<Rightarrow> string \<Rightarrow> nat \<Rightarrow> nat \<Rightarrow> (string \<Rightarrow> string \<Rightarrow> 't list gen)
     \<Rightarrow> string list \<Rightarrow> 't list \<times> 't list \<Rightarrow> ('t list \<times> 't list) gen" where
  "level_loop listdir audio_dir n_practice n_main trials_for [] (practice_list, main_list) =
     gen_ret (practice_list, main_list)"
| "level_loop listdir audio_dir n_practice n_main trials_for (level # levels)
       (practice_list, main_list) =
     (case get_files_from_dir listdir (path_join audio_dir level) of
        None \<Rightarrow> gen_raise QuitMissingDirectory
      | Some files_in_folder \<Rightarrow>
          if length files_in_folder < n_practice + n_main then gen_raise QuitNotEnoughFiles
          else
            gen_bind (shuffle files_in_folder) (\<lambda>files_in_folder.
            let practice_files = take n_practice files_in_folder;
                main_files = drop n_practice (take (n_practice + n_main) files_in_folder)
            in
            gen_bind (for_each (trials_for level) practice_files) (\<lambda>new_practice.
            gen_bind (for_each (trials_for level) main_files) (\<lambda>new_main.
            level_loop listdir audio_dir n_practice n_main trials_for levels
              (practice_list @ new_practice, main_list @ new_main)))))"

definition generate_trial_lists_with ::
  "(string list \<Rightarrow> string list \<Rightarrow> string \<Rightarrow> string \<Rightarrow> 't list gen)
     \<Rightarrow> string list \<Rightarrow> nat \<Rightarrow> nat \<Rightarrow> listing \<Rightarrow> string \<Rightarrow> ('t list \<times> 't list) gen" where
  "generate_trial_lists_with trials_for levels n_practice n_main listdir base_dir =
     (let audio_dir = path_join base_dir ''audio'';
          babbling_dir = path_join base_dir ''babbling'';
          masks_dir = path_join base_dir ''masks''
      in case get_files_from_dir listdir babbling_dir of
           None \<Rightarrow> gen_raise QuitMissingDirectory
         | Some babbling_list \<Rightarrow>
      (case get_files_from_dir listdir masks_dir of
           None \<Rightarrow> gen_raise QuitMissingDirectory
         | Some mask_list \<Rightarrow>
             if babbling_list = [] \<or> mask_list = [] then gen_raise QuitEmptyDirectory
             else
               gen_bind (level_loop listdir audio_dir n_practice n_main
                           (trials_for babbling_list mask_list) levels ([], []))
                 (\<lambda>(practice_list, main_list).
               gen_bind (shuffle practice_list) (\<lambda>practice_list.
               gen_bind (shuffle main_list) (\<lambda>main_list.
               gen_ret (practice_list, main_list))))))"

subsection \<open>d-prime_detection.py\<close>

record detection_trial =
  signal_type :: string
  compression_level :: string
  prime_file :: string
  correct_word :: string
  babbling_file :: string
  mask1_file :: string
  mask2_file :: string

text \<open>
  The two dictionaries appended for a file: a signal-present trial and a signal-absent
  one. The three random choices of a dictionary are made in the order of its keys.
\<close>

definition detection_trials ::
  "string list \<Rightarrow> string list \<Rightarrow> string \<Rightarrow> string \<Rightarrow> detection_trial list gen" where
  "detection_trials babbling_list mask_list level f =
     gen_bind (choice babbling_list) (\<lambda>b1.
     gen_bind (choice mask_list) (\<lambda>m11.
     gen_bind (choice mask_list) (\<lambda>m12.
     gen_bind (choice babbling_list) (\<lambda>b2.
     gen_bind (choice mask_list) (\<lambda>m21.
     gen_bind (choice mask_list) (\<lambda>m22.
     gen_ret
       [\<lparr> signal_type = ''present'', compression_level = level, prime_file = f,
          correct_word = get_word_from_filename f, babbling_file = b1,
          mask1_file = m11, mask2_file = m12 \<rparr>,
        \<lparr> signal_type = ''absent'', compression_level = level, prime_file = ''SILENCE'',
          correct_word = ''NA'', babbling_file = b2,
          mask1_file = m21, mask2_file = m22 \<rparr>]))))))"

definition detection_COMPRESSION_LEVELS :: "string list" where
  "detection_COMPRESSION_LEVELS = [''0.1'', ''0.2'', ''0.3'', ''0.4'', ''0.5'', ''0.6'', ''0.7'']"

definition N_PRACTICE_REPS_PER_LEVEL :: nat where
  "N_PRACTICE_REPS_PER_LEVEL = 1"

definition N_MAIN_REPS_PER_LEVEL :: nat where
  "N_MAIN_REPS_PER_LEVEL = 7"

definition detection_generate_trial_lists ::
  "listing \<Rightarrow> string \<Rightarrow> (detection_trial list \<times> detection_trial list) gen" where
  "detection_generate_trial_lists =
     generate_trial_lists_with detection_trials detection_COMPRESSION_LEVELS
       N_PRACTICE_REPS_PER_LEVEL N_MAIN_REPS_PER_LEVEL"

subsection \<open>main_typing_experiment.py\<close>

record typing_trial =
  ty_compression_level :: string
  ty_prime_file :: string
  ty_correct_word :: string
  ty_babbling_file :: string
  ty_mask1_file :: string
  ty_mask2_file :: string

definition typing_trials ::
  "string list \<Rightarrow> string list \<Rightarrow> string \<Rightarrow> string \<Rightarrow> typing_trial list gen" where
  "typing_trials babbling_list mask_list level f =
     gen_bind (choice babbling_list) (\<lambda>b.
     gen_bind (choice mask_list) (\<lambda>m1.
     gen_bind (choice mask_list) (\<lambda>m2.
     gen_ret
       [\<lparr> ty_compression_level = level, ty_prime_file = f,
          ty_correct_word = get_word_from_filename f, ty_babbling_file = b,
          ty_mask1_file = m1, ty_mask2_file = m2 \<rparr>])))"

definition typing_COMPRESSION_LEVELS :: "string list" where
  "typing_COMPRESSION_LEVELS =
     [''0.1'', ''0.2'', ''0.3'', ''0.4'', ''0.5'', ''0.6'', ''0.7'', ''0.8'']"

definition N_PRACTICE_WORDS_PER_FOLDER :: nat where
  "N_PRACTICE_WORDS_PER_FOLDER = 1"

definition N_MAIN_WORDS_PER_FOLDER :: nat where
  "N_MAIN_WORDS_PER_FOLDER = 1"

definition typing_generate_trial_lists ::
  "listing \<Rightarrow> string \<Rightarrow> (typing_trial list \<times> typing_trial list) gen" where
  "typing_generate_trial_lists =
     generate_trial_lists_with typing_trials typing_COMPRESSION_LEVELS
       N_PRACTICE_WORDS_PER_FOLDER N_MAIN_WORDS_PER_FOLDER"

subsection \<open>forced_choice.py\<close>

text \<open>
  The redraw loops of \<open>generate_trial_list\<close> may run for ever, so its result is
  optional: \<open>None\<close> when it does not return.
\<close>

type_synonym 'a pgen = "rng \<Rightarrow> (py_error + 'a \<times> rng) option"

definition pgen_ret :: "'a \<Rightarrow> 'a pgen" where
  "pgen_ret x g = Some (Inr (x, g))"

definition pgen_raise :: "py_error \<Rightarrow> 'a pgen" where
  "pgen_raise e g = Some (Inl e)"

definition pgen_bind :: "'a pgen \<Rightarrow> ('a \<Rightarrow> 'b pgen) \<Rightarrow> 'b pgen" where
  "pgen_bind m f g =
     (case m g of
        None \<Rightarrow> None
      | Some (Inl e) \<Rightarrow> Some (Inl e)
      | Some (Inr (x, g')) \<Rightarrow> f x g')"

definition lift :: "'a gen \<Rightarrow> 'a pgen" where
  "lift m g = Some (m g)"

text \<open>
  \<open>while first == second: second = random.choice(pool)\<close>, returning the final
  \<open>second\<close>.
\<close>

partial_function (option) redraw ::
  "string list \<Rightarrow> string \<Rightarrow> string \<Rightarrow> rng \<Rightarrow> (py_error + string \<times> rng) option" where
  "redraw pool first second g =
     (if first = second
      then (case choice pool g of
              Inl e \<Rightarrow> Some (Inl e)
            | Inr (second', g') \<Rightarrow> redraw pool first second' g')
      else Some (Inr (second, g)))"

declare redraw.simps [code]

record prime_entry =
  pe_file :: string
  pe_valence :: string
  pe_word :: string

record fc_trial =
  fc_trial_i :: nat
  fc_prime_file :: string
  fc_prime_valence :: string
  fc_correct_word :: string
  fc_distractor_word :: string
  fc_babbling_file :: string
  fc_mask1_file :: string
  fc_mask2_file :: string

definition N_PRACTICE_TRIALS :: nat where "N_PRACTICE_TRIALS = 2"
definition N_MAIN_TRIALS :: nat where "N_MAIN_TRIALS = 8"
definition N_TOTAL_TRIALS :: nat where "N_TOTAL_TRIALS = N_PRACTICE_TRIALS + N_MAIN_TRIALS"
definition N_POS_PRIMES :: nat where "N_POS_PRIMES = 4"
definition N_NEG_PRIMES :: nat where "N_NEG_PRIMES = 3"
definition N_NEU_PRIMES :: nat where "N_NEU_PRIMES = 3"

definition listdir_or_quit :: "listing \<Rightarrow> string \<Rightarrow> string list gen" where
  "listdir_or_quit listdir directory =
     (case get_files_from_dir listdir directory of
        None \<Rightarrow> gen_raise QuitMissingDirectory
      | Some files \<Rightarrow> gen_ret files)"

definition prime_entries :: "string \<Rightarrow> string list \<Rightarrow> prime_entry list" where
  "prime_entries valence fs =
     map (\<lambda>f. \<lparr> pe_file = f, pe_valence = valence, pe_word = get_word_from_filename f \<rparr>) fs"

text \<open>The body of the loop over \<open>i\<close> that builds the final trial list.\<close>

definition fc_build_trial ::
  "string list \<Rightarrow> string list \<Rightarrow> string list \<Rightarrow> prime_entry list \<Rightarrow> nat \<Rightarrow> fc_trial pgen" where
  "fc_build_trial mask_list babbling_list all_prime_words prime_list i =
     pgen_bind (lift (choice mask_list)) (\<lambda>mask1.
     pgen_bind (lift (choice mask_list)) (\<lambda>mask2.
     pgen_bind (redraw mask_list mask1 mask2) (\<lambda>mask2.
     pgen_bind (if i < length prime_list then pgen_ret (prime_list ! i)
                else pgen_raise IndexError) (\<lambda>entry.
     let correct_word = pe_word entry in
     pgen_bind (lift (choice all_prime_words)) (\<lambda>distractor_word.
     pgen_bind (redraw all_prime_words correct_word distractor_word) (\<lambda>distractor_word.
     pgen_bind (lift (choice babbling_list)) (\<lambda>babbling.
     pgen_ret
       \<lparr> fc_trial_i = i + 1,
         fc_prime_file = pe_file entry,
         fc_prime_valence = pe_valence entry,
         fc_correct_word = correct_word,
         fc_distractor_word = distractor_word,
         fc_babbling_file = babbling,
         fc_mask1_file = mask1,
         fc_mask2_file = mask2 \<rparr>)))))))"

fun fc_trials_loop :: "(nat \<Rightarrow> fc_trial pgen) \<Rightarrow> nat list \<Rightarrow> fc_trial list pgen" where
  "fc_trials_loop body [] = pgen_ret []"
| "fc_trials_loop body (i # rest) =
     pgen_bind (body i) (\<lambda>trial_data.
     pgen_bind (fc_trials_loop body rest) (\<lambda>generated_trials.
     pgen_ret (trial_data # generated_trials)))"

text \<open>
  \<open>generate_trial_list\<close>. \<open>list(set(...))\<close> keeps one copy of each word in an order
  Python does not specify; the model keeps the order of \<open>remdups\<close>.
\<close>

definition generate_trial_list :: "listing \<Rightarrow> string \<Rightarrow> fc_trial list pgen" where
  "generate_trial_list listdir base_dir =
     (let primes_dir = path_join base_dir ''primes'';
          babbling_dir = path_join base_dir ''babbling'';
          masks_dir = path_join base_dir ''masks''
      in
      pgen_bind (lift (listdir_or_quit listdir (path_join primes_dir ''positive''))) (\<lambda>prime_pos_files.
      pgen_bind (lift (listdir_or_quit listdir (path_join primes_dir ''negative''))) (\<lambda>prime_neg_files.
      pgen_bind (lift (listdir_or_quit listdir (path_join primes_dir ''neutrale''))) (\<lambda>prime_neu_files.
      pgen_bind (lift (listdir_or_quit listdir babbling_dir)) (\<lambda>babbling_list.
      pgen_bind (lift (listdir_or_quit listdir masks_dir)) (\<lambda>mask_list.
      if prime_pos_files = [] \<or> prime_neg_files = [] \<or> prime_neu_files = []
         \<or> babbling_list = [] \<or> mask_list = []
      then pgen_raise QuitEmptyDirectory
      else
        let all_prime_files = prime_pos_files @ prime_neg_files @ prime_neu_files;
            all_prime_words = remdups (map get_word_from_filename all_prime_files)
        in
        if length all_prime_words < 2 then pgen_raise QuitTooFewWords
        else
          pgen_bind (lift (choices prime_pos_files N_POS_PRIMES)) (\<lambda>pos_choices.
          pgen_bind (lift (choices prime_neg_files N_NEG_PRIMES)) (\<lambda>neg_choices.
          pgen_bind (lift (choices prime_neu_files N_NEU_PRIMES)) (\<lambda>neu_choices.
          let prime_list = prime_entries ''positive'' pos_choices
                           @ prime_entries ''negative'' neg_choices
                           @ prime_entries ''neutral'' neu_choices
          in
          pgen_bind (lift (shuffle prime_list)) (\<lambda>prime_list.
          pgen_bind (fc_trials_loop
                       (fc_build_trial mask_list babbling_list all_prime_words prime_list)
                       [0..<N_TOTAL_TRIALS]) (\<lambda>generated_trials.
          lift (shuffle generated_trials))))))))))))"

text \<open>The two slices \<open>main\<close> takes of the generated list: practice and main.\<close>

definition forced_choice_lists :: "listing \<Rightarrow> string \<Rightarrow> (fc_trial list \<times> fc_trial list) pgen" where
  "forced_choice_lists listdir base_dir =
     pgen_bind (generate_trial_list listdir base_dir) (\<lambda>full_trial_list.
     pgen_ret (take N_PRACTICE_TRIALS full_trial_list,
               drop N_PRACTICE_TRIALS (take N_TOTAL_TRIALS full_trial_list)))"


subsection \<open>gemini_code_v1.py\<close>

text \<open>
  The two mask selections of \<open>run_trial\<close>; the rest of the function plays sounds and
  draws the screen. The second mask is chosen among the files other than the first.
\<close>

definition run_trial_masks :: "string list \<Rightarrow> (string \<times> string) gen" where
  "run_trial_masks mask_files =
     gen_bind (choice mask_files) (\<lambda>mask1_file.
     gen_bind (choice (filter (\<lambda>f. f \<noteq> mask1_file) mask_files)) (\<lambda>mask2_file.
     gen_ret (mask1_file, mask2_file)))"

subsection \<open>Prime files of a stratum\<close>

text \<open>
  The pairs (level, prime file) of the trials that carry a prime, and the prime files of
  one stratum. A signal-absent trial of the detection experiment carries none: its
  \<open>prime_file\<close> is the placeholder \<open>SILENCE\<close>.
\<close>

definition detection_primes :: "detection_trial list \<Rightarrow> (string \<times> string) list" where
  "detection_primes ts =
     map (\<lambda>t. (compression_level t, prime_file t)) (filter (\<lambda>t. signal_type t = ''present'') ts)"

definition typing_primes :: "typing_trial list \<Rightarrow> (string \<times> string) list" where
  "typing_primes ts = map (\<lambda>t. (ty_compression_level t, ty_prime_file t)) ts"

definition detection_stratum_primes :: "string \<Rightarrow> detection_trial list \<Rightarrow> string list" where
  "detection_stratum_primes level ts =
     map prime_file
       (filter (\<lambda>t. compression_level t = level \<and> signal_type t = ''present'') ts)"

definition typing_stratum_primes :: "string \<Rightarrow> typing_trial list \<Rightarrow> string list" where
  "typing_stratum_primes level ts =
     map ty_prime_file (filter (\<lambda>t. ty_compression_level t = level) ts)"


definition fc_stratum_primes :: "string \<Rightarrow> fc_trial list \<Rightarrow> string list" where
  "fc_stratum_primes valence ts =
     map fc_prime_file (filter (\<lambda>t. fc_prime_valence t = valence) ts)"

definition fc_phase_primes ::
  "string \<Rightarrow> (py_error + (fc_trial list \<times> fc_trial list) \<times> rng) option
     \<Rightarrow> (py_error + string list \<times> string list) option" where
  "fc_phase_primes valence r =
     (case r of
        None \<Rightarrow> None
      | Some (Inl e) \<Rightarrow> Some (Inl e)
      | Some (Inr ((practice_list, main_list), g)) \<Rightarrow>
          Some (Inr (fc_stratum_primes valence practice_list,
                     fc_stratum_primes valence main_list)))"

definition fc_word_pairs ::
  "(py_error + fc_trial list \<times> rng) option \<Rightarrow> (py_error + (string \<times> string) list) option" where
  "fc_word_pairs r =
     (case r of
        None \<Rightarrow> None
      | Some (Inl e) \<Rightarrow> Some (Inl e)
      | Some (Inr (trials, g)) \<Rightarrow>
          Some (Inr (map (\<lambda>t. (fc_correct_word t, fc_distractor_word t)) trials)))"




subsection \<open>Example directories and random sources\<close>

definition audio_words :: "string list" where
  "audio_words = [''bange_compressed.wav'', ''glad_compressed.wav'', ''hus_compressed.wav'',
     ''kat_compressed.wav'', ''lampe_compressed.wav'', ''mor_compressed.wav'',
     ''sol_compressed.wav'', ''vred_compressed.wav'']"

definition full_listdir :: listing where
  "full_listdir d =
     (if d = ''exp/babbling'' then Some [''babble.wav'']
      else if d = ''exp/masks'' then Some [''rev_1.wav'', ''rev_2.wav'']
      else if d \<in> set (map (path_join ''exp/audio'') typing_COMPRESSION_LEVELS)
      then Some audio_words
      else None)"

definition short_listdir :: "nat \<Rightarrow> listing" where
  "short_listdir n d =
     (if d = ''exp/audio/0.3'' then Some (take n audio_words) else full_listdir d)"

definition zero_rng :: rng where
  "zero_rng = (\<lambda>k. 0, 0)"

text \<open>The mask pairs of the two generated lists, in order.\<close>

definition detection_mask_pairs ::
  "py_error + (detection_trial list \<times> detection_trial list) \<times> rng
     \<Rightarrow> py_error + (string \<times> string) list \<times> (string \<times> string) list" where
  "detection_mask_pairs r =
     (case r of
        Inl e \<Rightarrow> Inl e
      | Inr ((practice_list, main_list), g) \<Rightarrow>
          Inr (map (\<lambda>t. (mask1_file t, mask2_file t)) practice_list,
               map (\<lambda>t. (mask1_file t, mask2_file t)) main_list))"

definition typing_mask_pairs ::
  "py_error + (typing_trial list \<times> typing_trial list) \<times> rng
     \<Rightarrow> py_error + (string \<times> string) list \<times> (string \<times> string) list" where
  "typing_mask_pairs r =
     (case r of
        Inl e \<Rightarrow> Inl e
      | Inr ((practice_list, main_list), g) \<Rightarrow>
          Inr (map (\<lambda>t. (ty_mask1_file t, ty_mask2_file t)) practice_list,
               map (\<lambda>t. (ty_mask1_file t, ty_mask2_file t)) main_list))"


definition fc_listdir :: listing where
  "fc_listdir d =
     (if d = ''exp/primes/positive'' then Some [''happy_compressed.wav'']
      else if d = ''exp/primes/negative'' then Some [''sad_compressed.wav'']
      else if d = ''exp/primes/neutrale'' then Some [''table_compressed.wav'']
      else if d = ''exp/babbling'' then Some [''babble.wav'']
      else if d = ''exp/masks'' then Some [''rev_1.wav'', ''rev_2.wav'']
      else None)"

definition counting_rng :: rng where
  "counting_rng = (\<lambda>k. k, 0)"

section \<open>Properties of the analysis\<close>

subsection \<open>Rounding\<close>

lemma rhe_error: "\<bar>of_int (round_half_even z) - z\<bar> \<le> 1/2"
  unfolding round_half_even_def Let_def by (auto; linarith)

lemma rhe_le: "z \<le> of_int m \<Longrightarrow> round_half_even z \<le> m"
  unfolding round_half_even_def Let_def by (auto; linarith)

lemma rhe_ge: "of_int m \<le> z \<Longrightarrow> m \<le> round_half_even z"
  unfolding round_half_even_def Let_def by (auto; linarith)

lemma rhe_below_half: "z < of_int m - 1/2 \<Longrightarrow> round_half_even z \<le> m - 1"
  unfolding round_half_even_def Let_def by (auto; linarith)

lemma rhe_above_half: "of_int m + 1/2 < z \<Longrightarrow> m + 1 \<le> round_half_even z"
  unfolding round_half_even_def Let_def by (auto; linarith)

lemma powi_suc: "2 powi (k + 1) = 2 * (2 powi k :: real)"
  by (simp add: power_int_add)

lemma powi_pred: "2 powi (k - 1) = (2 powi k :: real) / 2"
  by (simp add: power_int_diff)

lemma binade_bounds: "0 < x \<Longrightarrow> 2 powi binade x \<le> x \<and> x < 2 powi (binade x + 1)"
proof (induction x rule: binade.induct)
  case (1 x)
  consider "2 \<le> x" | "x < 1" | "1 \<le> x \<and> x < 2" by linarith
  then show ?case
  proof cases
    case 1
    then have b: "binade x = binade (x / 2) + 1" using "1.prems" by (subst binade.simps) simp
    from "1.IH"(1) 1 "1.prems"
    have "2 powi binade (x / 2) \<le> x / 2 \<and> x / 2 < 2 powi (binade (x / 2) + 1)" by simp
    then show ?thesis unfolding b powi_suc by simp
  next
    case 2
    then have b: "binade x = binade (2 * x) - 1" using "1.prems" by (subst binade.simps) simp
    from "1.IH"(2) 2 "1.prems"
    have "2 powi binade (2 * x) \<le> 2 * x \<and> 2 * x < 2 powi (binade (2 * x) + 1)" by simp
    then show ?thesis unfolding b powi_pred by (simp add: powi_suc)
  next
    case 3
    then have "binade x = 0" by (subst binade.simps) simp
    with 3 show ?thesis by simp
  qed
qed

lemma binade_unique:
  assumes "0 < x" "2 powi k \<le> x" "x < 2 powi (k + 1)"
  shows "binade x = k"
proof -
  from binade_bounds[OF assms(1)] have b: "2 powi binade x \<le> x" "x < 2 powi (binade x + 1)"
    by simp_all
  have "binade x < k + 1"
  proof (rule ccontr)
    assume "\<not> binade x < k + 1"
    then have "(2::real) powi (k + 1) \<le> 2 powi binade x" by (intro power_int_increasing) auto
    with b(1) assms(3) show False by linarith
  qed
  moreover have "k < binade x + 1"
  proof (rule ccontr)
    assume "\<not> k < binade x + 1"
    then have "(2::real) powi (binade x + 1) \<le> 2 powi k" by (intro power_int_increasing) auto
    with b(2) assms(2) show False by linarith
  qed
  ultimately show ?thesis by linarith
qed

lemma powi_grid:
  assumes "E \<le> j"
  shows "(2::real) powi j = 2 powi E * of_int (2 ^ nat (j - E))"
proof -
  have "(2::real) powi j = 2 powi (E + (j - E))" by simp
  also have "\<dots> = 2 powi E * 2 powi (j - E)" by (rule power_int_add) simp
  also have "(2::real) powi (j - E) = of_int (2 ^ nat (j - E))"
    using assms by (simp add: power_int_def)
  finally show ?thesis .
qed

lemma round_double_le_grid:
  assumes "max (binade \<bar>x\<bar>) (- 1022) - 52 \<le> j" "x \<le> 2 powi j"
  shows "round_double x \<le> 2 powi j"
proof -
  let ?E = "max (binade \<bar>x\<bar>) (- 1022) - 52"
  let ?u = "(2::real) powi ?E"
  have u: "0 < ?u" by simp
  have g: "(2::real) powi j = ?u * of_int (2 ^ nat (j - ?E))" by (rule powi_grid[OF assms(1)])
  have "x / ?u \<le> of_int (2 ^ nat (j - ?E))"
    using assms(2) u unfolding g by (simp add: field_simps)
  then have "round_half_even (x / ?u) \<le> 2 ^ nat (j - ?E)" by (rule rhe_le)
  then have "real_of_int (round_half_even (x / ?u)) \<le> of_int (2 ^ nat (j - ?E))" by linarith
  then have "?u * of_int (round_half_even (x / ?u)) \<le> ?u * of_int (2 ^ nat (j - ?E))"
    using u by (simp only: mult_le_cancel_left_pos)
  then show ?thesis unfolding g round_double_def Let_def .
qed

lemma round_double_ge_grid:
  assumes "max (binade \<bar>x\<bar>) (- 1022) - 52 \<le> j" "2 powi j \<le> x"
  shows "2 powi j \<le> round_double x"
proof -
  let ?E = "max (binade \<bar>x\<bar>) (- 1022) - 52"
  let ?u = "(2::real) powi ?E"
  have u: "0 < ?u" by simp
  have g: "(2::real) powi j = ?u * of_int (2 ^ nat (j - ?E))" by (rule powi_grid[OF assms(1)])
  have "of_int (2 ^ nat (j - ?E)) \<le> x / ?u"
    using assms(2) u unfolding g by (simp add: field_simps)
  then have "2 ^ nat (j - ?E) \<le> round_half_even (x / ?u)" by (rule rhe_ge)
  then have "real_of_int (2 ^ nat (j - ?E)) \<le> of_int (round_half_even (x / ?u))" by linarith
  then have "?u * of_int (2 ^ nat (j - ?E)) \<le> ?u * of_int (round_half_even (x / ?u))"
    using u by (simp only: mult_le_cancel_left_pos)
  then show ?thesis unfolding g round_double_def Let_def .
qed

lemma round_double_error:
  "\<bar>round_double x - x\<bar> \<le> 2 powi (max (binade \<bar>x\<bar>) (- 1022) - 52) / 2"
proof -
  let ?u = "(2::real) powi (max (binade \<bar>x\<bar>) (- 1022) - 52)"
  have u: "0 < ?u" by simp
  have "round_double x - x = ?u * (of_int (round_half_even (x / ?u)) - x / ?u)"
    using u by (simp add: round_double_def Let_def field_simps)
  then have "\<bar>round_double x - x\<bar> = ?u * \<bar>of_int (round_half_even (x / ?u)) - x / ?u\<bar>"
    using u by (simp add: abs_mult)
  also have "\<dots> \<le> ?u * (1/2)"
    using u rhe_error[of "x / ?u"] by (simp only: mult_le_cancel_left_pos)
  finally show ?thesis by simp
qed

lemma reciprocal_range:
  fixes N :: int
  assumes "1 \<le> N" "N < 2 ^ 53"
  shows "1 / 2 ^ 54 < 1 / (2 * real_of_int N) \<and> 1 / (2 * real_of_int N) \<le> 1 / 2"
proof -
  from assms have "1 \<le> real_of_int N" "real_of_int N \<le> 2 ^ 53 - 1" by simp_all
  then show ?thesis by (simp add: field_simps)
qed

lemma round_reciprocal_bounds:
  fixes N :: int
  assumes "1 \<le> N" "N < 2 ^ 53"
  shows "1 / 2 ^ 54 < round_double (1 / (2 * real_of_int N))
       \<and> round_double (1 / (2 * real_of_int N)) \<le> 1 / 2
       \<and> \<bar>round_double (1 / (2 * real_of_int N)) - 1 / (2 * real_of_int N)\<bar> \<le> 1 / 2 ^ 54"
proof -
  define x where "x = 1 / (2 * real_of_int N)"
  have N: "1 \<le> real_of_int N" "real_of_int N \<le> 2 ^ 53 - 1" using assms by simp_all
  have x: "1 / 2 ^ 54 < x" "x \<le> 1 / 2" "0 < x"
    using reciprocal_range[OF assms] N unfolding x_def by simp_all
  define e where "e = binade x"
  from binade_bounds[OF x(3)] have b: "2 powi e \<le> x" "x < 2 powi (e + 1)"
    unfolding e_def by simp_all
  have e_hi: "e \<le> - 1"
  proof (rule ccontr)
    assume "\<not> e \<le> - 1"
    then have "(2::real) powi 0 \<le> 2 powi e" by (intro power_int_increasing) auto
    with b(1) x(2) show False by simp
  qed
  have e_lo: "- 54 \<le> e"
  proof (rule ccontr)
    assume "\<not> - 54 \<le> e"
    then have "(2::real) powi (e + 1) \<le> 2 powi (- 54)" by (intro power_int_increasing) auto
    with b(2) x(1) show False by simp
  qed
  have E: "max (binade \<bar>x\<bar>) (- 1022) - 52 = e - 52"
    using x(3) e_lo unfolding e_def by simp
  have upper: "round_double x \<le> 1 / 2"
  proof -
    have "round_double x \<le> 2 powi (- 1)"
      using e_hi x(2) by (intro round_double_le_grid) (simp_all add: E)
    then show ?thesis by simp
  qed
  have lower: "1 / 2 ^ 54 < round_double x"
  proof (cases "e = - 54")
    case False
    with e_lo have e53: "- 53 \<le> e" by simp
    have "2 powi e \<le> round_double x"
      using b(1) by (intro round_double_ge_grid) (simp_all add: E)
    moreover have "(2::real) powi (- 53) \<le> 2 powi e"
      using e53 by (intro power_int_increasing) auto
    ultimately show ?thesis by simp
  next
    case True
    have u: "(2::real) powi (max (binade \<bar>x\<bar>) (- 1022) - 52) = 1 / 2 ^ 106"
      unfolding E True by (simp add: field_simps)
    have "(2 ^ 53 + 1) * real_of_int N \<le> (2 ^ 53 + 1) * (2 ^ 53 - 1)"
      using N(2) by (intro mult_left_mono) simp_all
    then have "(2 ^ 53 + 1) * real_of_int N < 2 ^ 106" by simp
    then have "of_int (2 ^ 52) + 1 / 2 < x / (1 / 2 ^ 106)"
      using N(1) unfolding x_def by (simp add: field_simps)
    then have "2 ^ 52 + 1 \<le> round_half_even (x / (1 / 2 ^ 106))" by (rule rhe_above_half)
    then have "real_of_int (2 ^ 52 + 1) \<le> of_int (round_half_even (x / (1 / 2 ^ 106)))"
      by linarith
    then have "(1 / 2 ^ 106) * real_of_int (2 ^ 52 + 1)
                 \<le> (1 / 2 ^ 106) * of_int (round_half_even (x / (1 / 2 ^ 106)))"
      by (intro mult_left_mono) simp_all
    then have "(1 / 2 ^ 106) * real_of_int (2 ^ 52 + 1) \<le> round_double x"
      unfolding round_double_def Let_def u .
    then show ?thesis by simp
  qed
  have err: "\<bar>round_double x - x\<bar> \<le> 1 / 2 ^ 54"
  proof -
    have "(2::real) powi (e - 52) \<le> 2 powi (- 53)"
      using e_hi by (intro power_int_increasing) auto
    with round_double_error[of x] show ?thesis unfolding E by simp
  qed
  from lower upper err show ?thesis unfolding x_def by simp
qed

lemma round_complement_bounds:
  assumes "1 / 2 ^ 54 < d" "d \<le> 1 / 2"
  shows "1 / 2 \<le> round_double (1 - d) \<and> round_double (1 - d) < 1
       \<and> \<bar>round_double (1 - d) - (1 - d)\<bar> \<le> 1 / 2 ^ 54"
proof -
  define y where "y = 1 - d"
  have y: "1 / 2 \<le> y" "y < 1 - 1 / 2 ^ 54" "0 < y" using assms unfolding y_def by simp_all
  have "binade y = - 1" using y by (intro binade_unique) simp_all
  then have E: "max (binade \<bar>y\<bar>) (- 1022) - 52 = - 53" using y(3) by simp
  have lower: "1 / 2 \<le> round_double y"
  proof -
    have p1: "max (binade \<bar>y\<bar>) (- 1022) - 52 \<le> - 1" unfolding E by simp
    have p2: "2 powi (- 1) \<le> y" using y(1) by simp
    have "2 powi (- 1) \<le> round_double y" by (rule round_double_ge_grid[OF p1 p2])
    then show ?thesis by simp
  qed
  have u: "(2::real) powi (max (binade \<bar>y\<bar>) (- 1022) - 52) = 1 / 2 ^ 53"
    unfolding E by (simp add: field_simps)
  have upper: "round_double y < 1"
  proof -
    have "y / (1 / 2 ^ 53) < of_int (2 ^ 53) - 1 / 2" using y(2) by (simp add: field_simps)
    then have "round_half_even (y / (1 / 2 ^ 53)) \<le> 2 ^ 53 - 1" by (rule rhe_below_half)
    then have "real_of_int (round_half_even (y / (1 / 2 ^ 53))) \<le> of_int (2 ^ 53 - 1)"
      by linarith
    then have "(1 / 2 ^ 53) * of_int (round_half_even (y / (1 / 2 ^ 53)))
                 \<le> (1 / 2 ^ 53) * real_of_int (2 ^ 53 - 1)"
      by (intro mult_left_mono) simp_all
    then have "round_double y \<le> (1 / 2 ^ 53) * real_of_int (2 ^ 53 - 1)"
      unfolding round_double_def Let_def u .
    then show ?thesis by simp
  qed
  have err: "\<bar>round_double y - y\<bar> \<le> 1 / 2 ^ 54"
    using round_double_error[of y] unfolding u by simp
  from lower upper err show ?thesis unfolding y_def by simp
qed

lemma round_double_half: "round_double (1 / 2) = 1 / 2"
  by code_simp

subsection \<open>The correction\<close>

lemma corrected_rates_in_range:
  assumes "1 \<le> n_trials" "n_trials < 2 ^ 53"
  shows "corrected_rates hit_rate fa_rate n_trials =
           Inr (edge_corrected_double hit_rate n_trials,
                edge_corrected_double fa_rate n_trials)"
proof -
  define d where "d = round_double (1 / (2 * real_of_int n_trials))"
  have nz: "2 * real_of_int n_trials \<noteq> 0" using assms(1) by simp
  from round_reciprocal_bounds[OF assms] have d: "1 / 2 ^ 54 < d" "d \<le> 1 / 2"
    unfolding d_def by simp_all
  from round_complement_bounds[OF d] have "round_double (1 - d) \<noteq> 0" by simp
  then show ?thesis
    using nz unfolding d_def
    by (simp add: corrected_rates_def bind_err_def float_div_def edge_corrected_double_def)
qed

lemma edge_corrected_double_interior:
  assumes "0 \<le> r" "r \<le> 1" "1 \<le> N" "N < 2 ^ 53"
  shows "0 < edge_corrected_double r N \<and> edge_corrected_double r N < 1"
proof -
  define d where "d = round_double (1 / (2 * real_of_int N))"
  from round_reciprocal_bounds[OF assms(3,4)] have d: "1 / 2 ^ 54 < d" "d \<le> 1 / 2"
    unfolding d_def by simp_all
  from round_complement_bounds[OF d]
  have c: "1 / 2 \<le> round_double (1 - d)" "round_double (1 - d) < 1" by simp_all
  have "0 < d" using d(1) by (rule less_trans[rotated]) simp
  with d(2) c assms(1,2) show ?thesis
    unfolding d_def by (auto simp: edge_corrected_double_def)
qed

lemma edge_corrected_double_close:
  assumes "1 \<le> N" "N < 2 ^ 53"
  shows "\<bar>edge_corrected_double r N - edge_corrected r N\<bar> \<le> 1 / 2 ^ 53"
proof -
  define x where "x = 1 / (2 * real_of_int N)"
  define d where "d = round_double x"
  from round_reciprocal_bounds[OF assms]
  have d: "1 / 2 ^ 54 < d" "d \<le> 1 / 2" and dx: "\<bar>d - x\<bar> \<le> 1 / 2 ^ 54"
    unfolding d_def x_def by simp_all
  from round_complement_bounds[OF d] have c: "\<bar>round_double (1 - d) - (1 - d)\<bar> \<le> 1 / 2 ^ 54"
    by simp
  have p: "(1::real) / 2 ^ 54 + 1 / 2 ^ 54 = 1 / 2 ^ 53" by simp
  have "\<bar>round_double (1 - d) - (1 - x)\<bar> \<le> \<bar>round_double (1 - d) - (1 - d)\<bar> + \<bar>d - x\<bar>"
    by linarith
  also have "\<dots> \<le> 1 / 2 ^ 54 + 1 / 2 ^ 54" by (rule add_mono[OF c dx])
  finally have one: "\<bar>round_double (1 - d) - (1 - x)\<bar> \<le> 1 / 2 ^ 53" unfolding p .
  have zero: "\<bar>d - x\<bar> \<le> 1 / 2 ^ 53" using dx by simp
  show ?thesis
    using one zero unfolding d_def x_def
    by (simp add: edge_corrected_double_def edge_corrected_def)
qed

lemma corrected_rates_one_count:
  "corrected_rates 0 0 n \<noteq> Inr (1 / 4, 1 / 2)"
  by (simp add: corrected_rates_def bind_err_def float_div_def)

lemma corrected_rates_at_2_53:
  "corrected_rates 1 (1 / 2) (2 ^ 53) = Inr (1, 1 / 2)"
  by code_simp

lemma stratum_row_transforms_corrected_rates:
  "bind_err (stratum_rates df_rate)
     (\<lambda>(hit_rate, false_alarm_rate).
        dprime quantile hit_rate false_alarm_rate (int (length df_rate))) =
   bind_err (stratum_corrected_rates df_rate)
     (\<lambda>(h, f). Inr (fsub (norm_ppf quantile h) (norm_ppf quantile f)))"
  by (cases "stratum_rates df_rate")
     (auto simp: stratum_corrected_rates_def dprime_def bind_err_def split: sum.splits)

lemma unbalanced_stratum_run:
  "stratum_corrected_rates two_misses_one_rejection =
     Inr (6004799503160661 / 2 ^ 55, 6004799503160661 / 2 ^ 55)"
  by code_simp

text \<open>
  C1. The claim: the hit rate of a stratum is its hits over its signal-present trials,
  the false-alarm rate its false alarms over its signal-absent trials. The code divides
  both counts by the number of all rows of the stratum. On the specification's example
  stratum (six hits in seven present trials, two false alarms in seven absent trials)
  the code's rates are 6/14 and 2/14, where the claim gives 6/7 and 2/7.
\<close>

theorem stratum_rates_divide_by_all_rows:
  "stratum_rates (df_rate_of example_stratum (3/10)) = Inr (6/14, 2/14)
   \<and> spec_hit_rate (df_rate_of example_stratum (3/10)) = 6/7
   \<and> spec_fa_rate (df_rate_of example_stratum (3/10)) = 2/7
   \<and> stratum_rates (df_rate_of example_stratum (3/10))
       \<noteq> Inr (spec_hit_rate (df_rate_of example_stratum (3/10)),
                spec_fa_rate (df_rate_of example_stratum (3/10)))"
  by (simp add: example_stratum_def mk_row_def df_rate_of_def stratum_rates_def
      spec_hit_rate_def spec_fa_rate_def outcome_count_def present_count_def
      absent_count_def bind_err_def py_div_def numeral_eq_Suc)

text \<open>
  C2, as stated, fails: \<open>dprime\<close> has one trial count for both rates, so the count of
  the correction cannot be the signal-present count for the hit rate and the
  signal-absent count for the false-alarm rate. For a stratum of two misses and one
  correct rejection both rates are 0; the per-kind counts 2 and 1 give 1/4 and 1/2. The
  code replaces both rates by the same number (the double nearest 1/6, with N = 3), and
  no value of \<open>n_trials\<close> makes \<open>dprime\<close> correct the two rates to 1/4 and 1/2.
\<close>

theorem correction_count_counterexample:
  "stratum_corrected_rates two_misses_one_rejection =
     Inr (6004799503160661 / 2 ^ 55, 6004799503160661 / 2 ^ 55)
   \<and> edge_corrected (spec_hit_rate two_misses_one_rejection)
        (int (present_count two_misses_one_rejection)) = 1 / 4
   \<and> edge_corrected (spec_fa_rate two_misses_one_rejection)
        (int (absent_count two_misses_one_rejection)) = 1 / 2
   \<and> (\<forall>n. corrected_rates 0 0 n \<noteq> Inr (1 / 4, 1 / 2))"
proof (intro conjI allI)
  show "stratum_corrected_rates two_misses_one_rejection =
     Inr (6004799503160661 / 2 ^ 55, 6004799503160661 / 2 ^ 55)"
    by (rule unbalanced_stratum_run)
  show "edge_corrected (spec_hit_rate two_misses_one_rejection)
        (int (present_count two_misses_one_rejection)) = 1 / 4"
    by (simp add: two_misses_one_rejection_def mk_row_def spec_hit_rate_def
        outcome_count_def present_count_def edge_corrected_def)
  show "edge_corrected (spec_fa_rate two_misses_one_rejection)
        (int (absent_count two_misses_one_rejection)) = 1 / 2"
    by (simp add: two_misses_one_rejection_def mk_row_def spec_fa_rate_def
        outcome_count_def absent_count_def edge_corrected_def)
  show "corrected_rates 0 0 n \<noteq> Inr (1 / 4, 1 / 2)" for n
    by (rule corrected_rates_one_count)
qed

text \<open>
  C2, amended: with N the \<open>n_trials\<close> argument of \<open>dprime\<close>, one count for both
  rates, and \<open>1 \<le> N < 2^53\<close>: a rate equal to 1 becomes \<open>1 - 1/(2N)\<close> and a rate
  equal to 0 becomes \<open>1/(2N)\<close>, each as double precision computes it (the quotient
  rounded, then the difference rounded), which is within \<open>2^-53\<close> of the exact value;
  any other rate is unchanged; and the inverse-normal transform is applied to the rates
  so corrected.
\<close>

theorem dprime_edge_correction:
  assumes "1 \<le> n_trials" "n_trials < 2 ^ 53"
  shows "corrected_rates hit_rate fa_rate n_trials =
           Inr (edge_corrected_double hit_rate n_trials,
                edge_corrected_double fa_rate n_trials)
         \<and> dprime quantile hit_rate fa_rate n_trials =
           Inr (fsub (norm_ppf quantile (edge_corrected_double hit_rate n_trials))
                     (norm_ppf quantile (edge_corrected_double fa_rate n_trials)))
         \<and> \<bar>edge_corrected_double hit_rate n_trials - edge_corrected hit_rate n_trials\<bar>
             \<le> 1 / 2 ^ 53
         \<and> \<bar>edge_corrected_double fa_rate n_trials - edge_corrected fa_rate n_trials\<bar>
             \<le> 1 / 2 ^ 53"
proof -
  have c: "corrected_rates hit_rate fa_rate n_trials =
           Inr (edge_corrected_double hit_rate n_trials,
                edge_corrected_double fa_rate n_trials)"
    by (rule corrected_rates_in_range[OF assms])
  then have "dprime quantile hit_rate fa_rate n_trials =
           Inr (fsub (norm_ppf quantile (edge_corrected_double hit_rate n_trials))
                     (norm_ppf quantile (edge_corrected_double fa_rate n_trials)))"
    by (simp add: dprime_def bind_err_def)
  with c edge_corrected_double_close[OF assms, of hit_rate]
    edge_corrected_double_close[OF assms, of fa_rate]
  show ?thesis by simp
qed

theorem dprime_edge_correction_witness:
  "(1::int) \<le> 1 \<and> (1::int) < 2 ^ 53
   \<and> corrected_rates 1 0 1 = Inr (1 / 2, 1 / 2)
   \<and> (\<forall>quantile. dprime quantile 1 0 1 = Inr (Fin (quantile (1 / 2) - quantile (1 / 2))))"
  using dprime_edge_correction [of 1 1 0]
  by (simp add: edge_corrected_double_def round_double_half norm_ppf_def)

text \<open>
  C3, as stated, fails. From \<open>n_trials = 2^53\<close> on, the float \<open>1 - 1/(2*n_trials)\<close>
  is 1.0 again: \<open>1/2^54\<close> is half the distance from 1.0 to the double below it, and
  the tie rounds to 1.0. With a hit rate of 1 and a false-alarm rate of 1/2 the
  inverse-normal transform then gets 1.0, and \<open>dprime\<close> returns plus infinity.
\<close>

theorem dprime_infinite_counterexample:
  "\<forall>quantile. dprime quantile 1 (1 / 2) (2 ^ 53) = Inr PInf"
  unfolding dprime_def corrected_rates_at_2_53 by (simp add: bind_err_def norm_ppf_def)

text \<open>
  C3, amended: for rates in the closed unit interval and a trial count N with
  \<open>1 \<le> N < 2^53\<close>, \<open>dprime\<close> returns a finite number: never an infinity, never
  not-a-number, and it does not raise; so at hit rate 1, false-alarm rate 0 and N = 1.
\<close>

theorem dprime_finite:
  assumes "0 \<le> hit_rate" "hit_rate \<le> 1" "0 \<le> fa_rate" "fa_rate \<le> 1"
      and "1 \<le> n_trials" "n_trials < 2 ^ 53"
  shows "\<exists>d. dprime quantile hit_rate fa_rate n_trials = Inr (Fin d)"
proof -
  have c: "corrected_rates hit_rate fa_rate n_trials =
           Inr (edge_corrected_double hit_rate n_trials,
                edge_corrected_double fa_rate n_trials)"
    by (rule corrected_rates_in_range[OF assms(5,6)])
  have h: "0 < edge_corrected_double hit_rate n_trials
           \<and> edge_corrected_double hit_rate n_trials < 1"
    by (rule edge_corrected_double_interior[OF assms(1,2,5,6)])
  have f: "0 < edge_corrected_double fa_rate n_trials
           \<and> edge_corrected_double fa_rate n_trials < 1"
    by (rule edge_corrected_double_interior[OF assms(3,4,5,6)])
  show ?thesis using c h f by (simp add: dprime_def bind_err_def norm_ppf_def)
qed

theorem dprime_finite_witness:
  "\<forall>quantile. \<exists>d. dprime quantile 1 0 1 = Inr (Fin d)"
  using dprime_finite [of 1 0 1] by simp

text \<open>
  C4. \<open>chi_square_from_rates\<close> hands the library's test, with the Yates correction on,
  the table of the specification (both row totals half the trial count) and returns the
  test's \<open>chi2\<close> and \<open>p\<close>; an exception of the test propagates.
\<close>

theorem chi_square_table:
  "chi_square_from_rates chi2_contingency hit_rate fa_rate n_trials =
     bind_err (chi2_contingency (spec_contingency_table hit_rate fa_rate n_trials) True)
       (\<lambda>(chi2, p, dof, expected). Inr (chi2, p))
   \<and> map sum_list (spec_contingency_table hit_rate fa_rate n_trials) =
       [real_of_int n_trials / 2, real_of_int n_trials / 2]"
proof
  show "chi_square_from_rates chi2_contingency hit_rate fa_rate n_trials =
     bind_err (chi2_contingency (spec_contingency_table hit_rate fa_rate n_trials) True)
       (\<lambda>(chi2, p, dof, expected). Inr (chi2, p))"
    by (simp add: chi_square_from_rates_def spec_contingency_table_def Let_def)
  show "map sum_list (spec_contingency_table hit_rate fa_rate n_trials) =
       [real_of_int n_trials / 2, real_of_int n_trials / 2]"
  proof -
    have "r * c + (1 - r) * c = c" for r c :: real by (simp add: algebra_simps)
    then show ?thesis by (simp add: spec_contingency_table_def)
  qed
qed




text \<open>
  C10. For rates strictly between 0 and 1, \<open>dprime\<close> returns the same value whatever
  the trial count is.
\<close>

theorem dprime_ignores_n_trials:
  assumes "0 < hit_rate" "hit_rate < 1" "0 < fa_rate" "fa_rate < 1"
  shows "dprime quantile hit_rate fa_rate n_trials = dprime quantile hit_rate fa_rate m_trials"
  using assms by (simp add: dprime_def corrected_rates_def bind_err_def)

theorem dprime_ignores_n_trials_witness:
  "\<forall>quantile. dprime quantile (6/7) (2/7) 1 = dprime quantile (6/7) (2/7) 14"
  using dprime_ignores_n_trials [of "6/7" "2/7" _ 1 14] by simp

section \<open>Properties of the generators\<close>

subsection \<open>The random source and the monad\<close>

lemma gen_bind_Inr:
  "gen_bind m f g = Inr r \<longleftrightarrow> (\<exists>x g'. m g = Inr (x, g') \<and> f x g' = Inr r)"
  by (auto simp: gen_bind_def split: sum.splits)

lemma gen_ret_Inr: "gen_ret x g = Inr r \<longleftrightarrow> r = (x, g)"
  by (auto simp: gen_ret_def)

lemma gen_raise_Inr: "gen_raise e g \<noteq> Inr r"
  by (simp add: gen_raise_def)

lemma shuffle_loop_mset:
  "k < length x \<or> k = 0 \<Longrightarrow> mset (fst (shuffle_loop k x g)) = mset x"
proof (induction k arbitrary: x g)
  case 0
  then show ?case by simp
next
  case (Suc k)
  then have i: "Suc k < length x" by simp
  obtain j g' where r: "randbelow (Suc k + 1) g = (j, g')" by (cases "randbelow (Suc k + 1) g")
  then have "j < Suc k + 1" by (auto simp: randbelow_def)
  then have j: "j < length x" using i by linarith
  let ?y = "x[Suc k := x ! j, j := x ! Suc k]"
  have "mset ?y = mset x" by (rule mset_swap[OF j i])
  moreover have "k < length ?y \<or> k = 0" using i by simp
  then have "mset (fst (shuffle_loop k ?y g')) = mset ?y" by (rule Suc.IH)
  ultimately show ?case using r by simp
qed

lemma shuffle_mset: "shuffle x g = Inr (y, g') \<Longrightarrow> mset y = mset x"
proof -
  assume a: "shuffle x g = Inr (y, g')"
  have "length x - 1 < length x \<or> length x - 1 = 0" by (cases x) auto
  then have "mset (fst (shuffle_loop (length x - 1) x g)) = mset x" by (rule shuffle_loop_mset)
  with a show ?thesis by (auto simp: shuffle_def)
qed

subsection \<open>The loop over the levels\<close>

lemma for_each_carried:
  assumes c_nil: "c [] = []"
      and c_app: "\<And>xs ys. c (xs @ ys) = c xs @ c ys"
      and body: "\<And>f g ts g'. body f g = Inr (ts, g') \<Longrightarrow> c ts = [h f]"
  shows "for_each body fs g = Inr (ts, g') \<Longrightarrow> c ts = map h fs"
proof (induction fs arbitrary: g ts g')
  case Nil
  then show ?case by (simp add: gen_ret_def c_nil)
next
  case (Cons f fs)
  from Cons.prems obtain t1 g1 t2 g2 where
    b: "body f g = Inr (t1, g1)" and r: "for_each body fs g1 = Inr (t2, g2)"
    and ts: "ts = t1 @ t2"
    by (auto simp: gen_bind_Inr gen_ret_Inr)
  from body[OF b] Cons.IH[OF r] show ?case by (simp add: ts c_app)
qed

lemma level_loop_Cons_Inr:
  "level_loop listdir audio_dir np nm trials_for (level # levels) (P0, M0) g = Inr r \<longleftrightarrow>
     (\<exists>files files' g1 p g2 m g3.
        get_files_from_dir listdir (path_join audio_dir level) = Some files
      \<and> \<not> length files < np + nm
      \<and> shuffle files g = Inr (files', g1)
      \<and> for_each (trials_for level) (take np files') g1 = Inr (p, g2)
      \<and> for_each (trials_for level) (drop np (take (np + nm) files')) g2 = Inr (m, g3)
      \<and> level_loop listdir audio_dir np nm trials_for levels (P0 @ p, M0 @ m) g3 = Inr r)"
proof (cases "get_files_from_dir listdir (path_join audio_dir level)")
  case None
  then show ?thesis by (simp add: gen_raise_def)
next
  case (Some files)
  show ?thesis
  proof (cases "length files < np + nm")
    case True
    then show ?thesis using Some by (simp add: gen_raise_def)
  next
    case False
    then show ?thesis using Some by (simp add: gen_bind_Inr Let_def)
  qed
qed

lemma level_loop_carried:
  assumes c_nil: "c [] = []"
      and c_app: "\<And>xs ys. c (xs @ ys) = c xs @ c ys"
      and body: "\<And>level f g ts g'. trials_for level f g = Inr (ts, g') \<Longrightarrow> c ts = [(level, f)]"
      and listing: "\<And>d fs. listdir d = Some fs \<Longrightarrow> distinct fs"
  shows "level_loop listdir audio_dir np nm trials_for levels (P0, M0) g = Inr ((P, M), g')
         \<Longrightarrow> distinct levels \<Longrightarrow> distinct (c P0 @ c M0)
         \<Longrightarrow> fst ` set (c P0 @ c M0) \<inter> set levels = {}
         \<Longrightarrow> distinct (c P @ c M)"
proof (induction levels arbitrary: P0 M0 g)
  case Nil
  then show ?case by (simp add: gen_ret_def)
next
  case (Cons level levels)
  from Cons.prems(1) obtain files files' g1 p g2 m g3 where
    gf: "get_files_from_dir listdir (path_join audio_dir level) = Some files"
    and sh: "shuffle files g = Inr (files', g1)"
    and fp: "for_each (trials_for level) (take np files') g1 = Inr (p, g2)"
    and fm: "for_each (trials_for level) (drop np (take (np + nm) files')) g2 = Inr (m, g3)"
    and rest: "level_loop listdir audio_dir np nm trials_for levels (P0 @ p, M0 @ m) g3
                 = Inr ((P, M), g')"
    unfolding level_loop_Cons_Inr by blast
  from gf obtain raw where "listdir (path_join audio_dir level) = Some raw"
    and "files = filter (\<lambda>f. \<not> startswith_dot f) raw"
    by (auto simp: get_files_from_dir_def)
  then have dfiles: "distinct files" using listing by auto
  have dfiles': "distinct files'"
    using mset_eq_imp_distinct_iff[OF shuffle_mset[OF sh]] dfiles by simp
  have cp: "c p = map (Pair level) (take np files')"
    using for_each_carried[where c = c and body = "trials_for level" and h = "Pair level",
        OF c_nil c_app body fp] by simp
  have cm: "c m = map (Pair level) (drop np (take (np + nm) files'))"
    using for_each_carried[where c = c and body = "trials_for level" and h = "Pair level",
        OF c_nil c_app body fm] by simp
  have dsel: "distinct (take np files' @ drop np (take (np + nm) files'))"
  proof -
    have "take np files' @ drop np (take (np + nm) files') = take (np + nm) files'"
    proof -
      have "take np (take (np + nm) files') = take np files'" by (simp add: min_def)
      then show ?thesis
        using append_take_drop_id[of np "take (np + nm) files'"] by simp
    qed
    then show ?thesis using dfiles' by simp
  qed
  have lev: "level \<notin> fst ` set (c P0 @ c M0)" using Cons.prems(4) by auto
  have inj: "inj (Pair level)" by (simp add: inj_on_def)
  have dnew: "distinct (c p @ c m)"
  proof -
    have "c p @ c m = map (Pair level) (take np files' @ drop np (take (np + nm) files'))"
      by (simp only: cp cm map_append)
    moreover have "distinct (map (Pair level) (take np files' @ drop np (take (np + nm) files')))"
      using dsel inj by (simp only: distinct_map) (auto simp: inj_on_def)
    ultimately show ?thesis by simp
  qed
  have newfst: "\<And>q. q \<in> set (c p @ c m) \<Longrightarrow> fst q = level"
    unfolding cp cm by auto
  have d1: "distinct (c (P0 @ p) @ c (M0 @ m))"
  proof -
    have disj: "set (c P0 @ c M0) \<inter> set (c p @ c m) = {}"
    proof (rule ccontr)
      assume "set (c P0 @ c M0) \<inter> set (c p @ c m) \<noteq> {}"
      then obtain q where q1: "q \<in> set (c P0 @ c M0)" and q2: "q \<in> set (c p @ c m)" by blast
      from newfst[OF q2] q1 have "level \<in> fst ` set (c P0 @ c M0)" by (metis imageI)
      with lev show False by simp
    qed
    have "mset (c (P0 @ p) @ c (M0 @ m)) = mset ((c P0 @ c M0) @ (c p @ c m))"
      by (simp add: c_app)
    moreover have "distinct ((c P0 @ c M0) @ (c p @ c m))"
      using Cons.prems(3) dnew disj by (simp only: distinct_append simp_thms)
    ultimately show ?thesis by (metis mset_eq_imp_distinct_iff)
  qed
  have d2: "fst ` set (c (P0 @ p) @ c (M0 @ m)) \<inter> set levels = {}"
  proof -
    have nl: "level \<notin> set levels" using Cons.prems(2) by simp
    have old: "fst ` set (c P0 @ c M0) \<inter> set levels = {}" using Cons.prems(4) by auto
    have "set (c (P0 @ p) @ c (M0 @ m)) = set (c P0 @ c M0) \<union> set (c p @ c m)"
      by (auto simp: c_app)
    moreover have "fst ` set (c p @ c m) \<inter> set levels = {}"
      using newfst nl by fastforce
    ultimately show ?thesis using old by (simp add: image_Un Int_Un_distrib2)
  qed
  from Cons.prems(2) have d3: "distinct levels" by simp
  show ?case by (rule Cons.IH[OF rest d3 d1 d2])
qed

lemma gen_bind_Inl: "m g = Inl e \<Longrightarrow> gen_bind m f g = Inl e"
  by (simp add: gen_bind_def)

lemma sum_cases_err: "(\<And>r. x \<noteq> Inr r) \<Longrightarrow> \<exists>e. x = Inl e"
  by (cases x) auto

lemma level_loop_not_enough:
  "level \<in> set levels
   \<Longrightarrow> get_files_from_dir listdir (path_join audio_dir level) = Some files
   \<Longrightarrow> length files < np + nm
   \<Longrightarrow> \<exists>e. level_loop listdir audio_dir np nm trials_for levels (P0, M0) g = Inl e"
proof (induction levels arbitrary: P0 M0 g)
  case Nil
  then show ?case by simp
next
  case (Cons l levels)
  show ?case
  proof (rule sum_cases_err)
    fix r
    show "level_loop listdir audio_dir np nm trials_for (l # levels) (P0, M0) g \<noteq> Inr r"
    proof
      assume "level_loop listdir audio_dir np nm trials_for (l # levels) (P0, M0) g = Inr r"
      then obtain fs p m g3 where
        gf: "get_files_from_dir listdir (path_join audio_dir l) = Some fs"
        and en: "\<not> length fs < np + nm"
        and rest: "level_loop listdir audio_dir np nm trials_for levels (P0 @ p, M0 @ m) g3 = Inr r"
        unfolding level_loop_Cons_Inr by blast
      show False
      proof (cases "l = level")
        case True
        with gf en Cons.prems(2,3) show False by simp
      next
        case False
        with Cons.prems(1) have "level \<in> set levels" by simp
        from Cons.IH[OF this Cons.prems(2,3)] obtain e where
          "level_loop listdir audio_dir np nm trials_for levels (P0 @ p, M0 @ m) g3 = Inl e"
          by blast
        with rest show False by simp
      qed
    qed
  qed
qed

lemma generate_with_Inr:
  "generate_trial_lists_with trials_for levels np nm listdir base_dir g = Inr ((P', M'), g')
   \<Longrightarrow> \<exists>babbling_list mask_list P M g1 g2.
         level_loop listdir (path_join base_dir ''audio'') np nm
           (trials_for babbling_list mask_list) levels ([], []) g = Inr ((P, M), g1)
       \<and> shuffle P g1 = Inr (P', g2) \<and> shuffle M g2 = Inr (M', g')"
proof -
  assume a: "generate_trial_lists_with trials_for levels np nm listdir base_dir g
               = Inr ((P', M'), g')"
  from a obtain b where b: "get_files_from_dir listdir (path_join base_dir ''babbling'') = Some b"
    by (cases "get_files_from_dir listdir (path_join base_dir ''babbling'')")
       (simp_all add: generate_trial_lists_with_def Let_def gen_raise_def)
  from a b obtain ml where ml: "get_files_from_dir listdir (path_join base_dir ''masks'') = Some ml"
    by (cases "get_files_from_dir listdir (path_join base_dir ''masks'')")
       (simp_all add: generate_trial_lists_with_def Let_def gen_raise_def)
  from a b ml have ne: "\<not> (b = [] \<or> ml = [])"
    by (auto simp: generate_trial_lists_with_def Let_def gen_raise_def)
  from a b ml ne have
    "gen_bind (level_loop listdir (path_join base_dir ''audio'') np nm (trials_for b ml)
                 levels ([], []))
       (\<lambda>(practice_list, main_list).
          gen_bind (shuffle practice_list) (\<lambda>practice_list.
          gen_bind (shuffle main_list) (\<lambda>main_list.
          gen_ret (practice_list, main_list)))) g = Inr ((P', M'), g')"
    by (simp add: generate_trial_lists_with_def Let_def)
  then obtain x g1 where
    ll: "level_loop listdir (path_join base_dir ''audio'') np nm (trials_for b ml)
           levels ([], []) g = Inr (x, g1)"
    and k: "(case x of (practice_list, main_list) \<Rightarrow>
          gen_bind (shuffle practice_list) (\<lambda>practice_list.
          gen_bind (shuffle main_list) (\<lambda>main_list.
          gen_ret (practice_list, main_list)))) g1 = Inr ((P', M'), g')"
    unfolding gen_bind_Inr[of "level_loop listdir (path_join base_dir ''audio'') np nm
        (trials_for b ml) levels ([], [])"] by blast
  obtain P M where x: "x = (P, M)" by (cases x)
  from k[unfolded x] obtain g2 where
    "shuffle P g1 = Inr (P', g2)" "shuffle M g2 = Inr (M', g')"
    by (auto simp: gen_bind_Inr gen_ret_Inr)
  with ll x show ?thesis by blast
qed

lemma generate_with_not_enough:
  assumes "level \<in> set levels"
      and "get_files_from_dir listdir (path_join (path_join base_dir ''audio'') level) = Some files"
      and "length files < np + nm"
  shows "\<exists>e. generate_trial_lists_with trials_for levels np nm listdir base_dir g = Inl e"
proof (rule sum_cases_err)
  fix r
  show "generate_trial_lists_with trials_for levels np nm listdir base_dir g \<noteq> Inr r"
  proof
    assume a: "generate_trial_lists_with trials_for levels np nm listdir base_dir g = Inr r"
    obtain P' M' g' where r: "r = ((P', M'), g')" by (metis surj_pair)
    from generate_with_Inr[OF a[unfolded r]] obtain b ml P M g1 where
      "level_loop listdir (path_join base_dir ''audio'') np nm (trials_for b ml) levels ([], []) g
         = Inr ((P, M), g1)" by blast
    moreover from level_loop_not_enough[OF assms] obtain e where
      "level_loop listdir (path_join base_dir ''audio'') np nm (trials_for b ml) levels ([], []) g
         = Inl e" by blast
    ultimately show False by simp
  qed
qed

lemma generate_with_carried:
  assumes c_nil: "c [] = []"
      and c_app: "\<And>xs ys. c (xs @ ys) = c xs @ c ys"
      and c_mset: "\<And>xs ys. mset xs = mset ys \<Longrightarrow> mset (c xs) = mset (c ys)"
      and body: "\<And>b ml level f g ts g'.
                   trials_for b ml level f g = Inr (ts, g') \<Longrightarrow> c ts = [(level, f)]"
      and listing: "\<And>d fs. listdir d = Some fs \<Longrightarrow> distinct fs"
      and levels: "distinct levels"
      and run: "generate_trial_lists_with trials_for levels np nm listdir base_dir g
                  = Inr ((P', M'), g')"
  shows "distinct (c P' @ c M')"
proof -
  from generate_with_Inr[OF run] obtain b ml P M g1 g2 where
    ll: "level_loop listdir (path_join base_dir ''audio'') np nm (trials_for b ml) levels
           ([], []) g = Inr ((P, M), g1)"
    and s1: "shuffle P g1 = Inr (P', g2)" and s2: "shuffle M g2 = Inr (M', g')"
    by blast
  have "distinct (c P @ c M)"
  proof (rule level_loop_carried[where c = c, OF c_nil c_app _ listing ll levels])
    show "\<And>level f g ts g'. trials_for b ml level f g = Inr (ts, g') \<Longrightarrow> c ts = [(level, f)]"
      by (rule body)
    show "distinct (c [] @ c [])" by (simp add: c_nil)
    show "fst ` set (c [] @ c []) \<inter> set levels = {}" by (simp add: c_nil)
  qed
  moreover have "mset (c P' @ c M') = mset (c P @ c M)"
    using c_mset[OF shuffle_mset[OF s1]] c_mset[OF shuffle_mset[OF s2]] by simp
  ultimately show ?thesis by (metis mset_eq_imp_distinct_iff)
qed

lemma choice_Inr: "choice xs g = Inr (x, g') \<Longrightarrow> x \<in> set xs"
  by (auto simp: choice_def randbelow_def split: if_splits)

lemma detection_trials_primes:
  "detection_trials b ml level f g = Inr (ts, g') \<Longrightarrow> detection_primes ts = [(level, f)]"
  by (auto simp: detection_trials_def gen_bind_Inr gen_ret_Inr detection_primes_def)

lemma typing_trials_primes:
  "typing_trials b ml level f g = Inr (ts, g') \<Longrightarrow> typing_primes ts = [(level, f)]"
  by (auto simp: typing_trials_def gen_bind_Inr gen_ret_Inr typing_primes_def)

lemma detection_stratum_primes_pairs:
  "detection_stratum_primes level ts =
     map snd (filter (\<lambda>q. fst q = level) (detection_primes ts))"
  by (induction ts) (auto simp: detection_stratum_primes_def detection_primes_def)

lemma typing_stratum_primes_pairs:
  "typing_stratum_primes level ts = map snd (filter (\<lambda>q. fst q = level) (typing_primes ts))"
  by (induction ts) (auto simp: typing_stratum_primes_def typing_primes_def)

lemma stratum_distinct:
  fixes xs ys :: "(string \<times> string) list"
  assumes "distinct (xs @ ys)"
  shows "distinct (map snd (filter (\<lambda>q. fst q = level) xs)
                   @ map snd (filter (\<lambda>q. fst q = level) ys))"
proof -
  have "distinct (filter (\<lambda>q. fst q = level) (xs @ ys))" using assms by (rule distinct_filter)
  moreover have "inj_on snd (set (filter (\<lambda>q. fst q = level) (xs @ ys)))"
    by (auto simp: inj_on_def)
  ultimately have "distinct (map snd (filter (\<lambda>q. fst q = level) (xs @ ys)))"
    by (simp only: distinct_map simp_thms)
  then show ?thesis by simp
qed

subsection \<open>The control experiments\<close>

lemma detection_zero_run:
  "detection_mask_pairs (detection_generate_trial_lists full_listdir ''exp'' zero_rng) =
     Inr (replicate 14 (''rev_1.wav'', ''rev_1.wav''), replicate 98 (''rev_1.wav'', ''rev_1.wav''))"
  by code_simp

lemma typing_zero_run:
  "typing_mask_pairs (typing_generate_trial_lists full_listdir ''exp'' zero_rng) =
     Inr (replicate 8 (''rev_1.wav'', ''rev_1.wav''), replicate 8 (''rev_1.wav'', ''rev_1.wav''))"
  by code_simp

text \<open>
  C6. The claim: in every trial of every generator that draws two masks, the second mask
  differs from the first. The generators of the two control experiments draw both masks
  independently from the same list and never compare them. With two mask files and a
  random source whose draws are all 0, every one of the 14 practice and 98 main trials of
  d-prime_detection.py (and of the 8 and 8 of main_typing_experiment.py) has the file
  \<open>rev_1.wav\<close> as both masks.
\<close>

theorem control_masks_coincide:
  "detection_mask_pairs (detection_generate_trial_lists full_listdir ''exp'' zero_rng) =
     Inr (replicate 14 (''rev_1.wav'', ''rev_1.wav''), replicate 98 (''rev_1.wav'', ''rev_1.wav''))
   \<and> typing_mask_pairs (typing_generate_trial_lists full_listdir ''exp'' zero_rng) =
     Inr (replicate 8 (''rev_1.wav'', ''rev_1.wav''), replicate 8 (''rev_1.wav'', ''rev_1.wav''))"
  by (rule conjI[OF detection_zero_run typing_zero_run])

lemma full_listdir_distinct: "full_listdir d = Some fs \<Longrightarrow> distinct fs"
  by (auto simp: full_listdir_def audio_words_def split: if_splits)

lemma detection_levels_distinct: "distinct detection_COMPRESSION_LEVELS"
  by (simp add: detection_COMPRESSION_LEVELS_def)

lemma typing_levels_distinct: "distinct typing_COMPRESSION_LEVELS"
  by (simp add: typing_COMPRESSION_LEVELS_def)

lemma detection_primes_distinct:
  assumes "\<And>d fs. listdir d = Some fs \<Longrightarrow> distinct fs"
      and "detection_generate_trial_lists listdir base_dir g = Inr ((P, M), g')"
  shows "distinct (detection_primes P @ detection_primes M)"
proof (rule generate_with_carried[where c = detection_primes and trials_for = detection_trials])
  show "detection_primes [] = []" by (simp add: detection_primes_def)
  show "\<And>xs ys. detection_primes (xs @ ys) = detection_primes xs @ detection_primes ys"
    by (simp add: detection_primes_def)
  show "\<And>xs ys. mset xs = mset ys \<Longrightarrow> mset (detection_primes xs) = mset (detection_primes ys)"
  proof -
    fix xs ys :: "detection_trial list"
    assume "mset xs = mset ys"
    then have "image_mset (\<lambda>t. (compression_level t, prime_file t))
                 (filter_mset (\<lambda>t. signal_type t = ''present'') (mset xs)) =
               image_mset (\<lambda>t. (compression_level t, prime_file t))
                 (filter_mset (\<lambda>t. signal_type t = ''present'') (mset ys))" by simp
    then show "mset (detection_primes xs) = mset (detection_primes ys)"
      by (simp add: detection_primes_def)
  qed
  show "\<And>b ml level f g ts g'. detection_trials b ml level f g = Inr (ts, g')
          \<Longrightarrow> detection_primes ts = [(level, f)]"
    by (rule detection_trials_primes)
  show "\<And>d fs. listdir d = Some fs \<Longrightarrow> distinct fs" by (rule assms(1))
  show "distinct detection_COMPRESSION_LEVELS" by (rule detection_levels_distinct)
  show "generate_trial_lists_with detection_trials detection_COMPRESSION_LEVELS
          N_PRACTICE_REPS_PER_LEVEL N_MAIN_REPS_PER_LEVEL listdir base_dir g = Inr ((P, M), g')"
    using assms(2) by (simp add: detection_generate_trial_lists_def)
qed

lemma typing_primes_distinct:
  assumes "\<And>d fs. listdir d = Some fs \<Longrightarrow> distinct fs"
      and "typing_generate_trial_lists listdir base_dir g = Inr ((P, M), g')"
  shows "distinct (typing_primes P @ typing_primes M)"
proof (rule generate_with_carried[where c = typing_primes and trials_for = typing_trials])
  show "typing_primes [] = []" by (simp add: typing_primes_def)
  show "\<And>xs ys. typing_primes (xs @ ys) = typing_primes xs @ typing_primes ys"
    by (simp add: typing_primes_def)
  show "\<And>xs ys. mset xs = mset ys \<Longrightarrow> mset (typing_primes xs) = mset (typing_primes ys)"
  proof -
    fix xs ys :: "typing_trial list"
    assume "mset xs = mset ys"
    then have "image_mset (\<lambda>t. (ty_compression_level t, ty_prime_file t)) (mset xs) =
               image_mset (\<lambda>t. (ty_compression_level t, ty_prime_file t)) (mset ys)" by simp
    then show "mset (typing_primes xs) = mset (typing_primes ys)"
      by (simp add: typing_primes_def)
  qed
  show "\<And>b ml level f g ts g'. typing_trials b ml level f g = Inr (ts, g')
          \<Longrightarrow> typing_primes ts = [(level, f)]"
    by (rule typing_trials_primes)
  show "\<And>d fs. listdir d = Some fs \<Longrightarrow> distinct fs" by (rule assms(1))
  show "distinct typing_COMPRESSION_LEVELS" by (rule typing_levels_distinct)
  show "generate_trial_lists_with typing_trials typing_COMPRESSION_LEVELS
          N_PRACTICE_WORDS_PER_FOLDER N_MAIN_WORDS_PER_FOLDER listdir base_dir g = Inr ((P, M), g')"
    using assms(2) by (simp add: typing_generate_trial_lists_def)
qed

lemma distinct_append_disjoint: "distinct (xs @ ys) \<Longrightarrow> set xs \<inter> set ys = {}"
  by simp

text \<open>
  C9, amended: in the two control experiments (d-prime_detection.py and
  main_typing_experiment.py), where a directory listing holds no name twice, every prime
  file of a stratum appears at most once across the practice and the main list together,
  so the prime files of the stratum's practice trials and those of its main trials are
  disjoint.
\<close>

theorem control_primes_without_replacement:
  assumes "\<And>d fs. listdir d = Some fs \<Longrightarrow> distinct fs"
  shows "(detection_generate_trial_lists listdir base_dir g = Inr ((practice_list, main_list), g')
          \<longrightarrow> distinct (detection_stratum_primes level practice_list
                        @ detection_stratum_primes level main_list)
            \<and> set (detection_stratum_primes level practice_list)
                \<inter> set (detection_stratum_primes level main_list) = {})
       \<and> (typing_generate_trial_lists listdir base_dir g = Inr ((ty_practice, ty_main), g'')
          \<longrightarrow> distinct (typing_stratum_primes level ty_practice
                        @ typing_stratum_primes level ty_main)
            \<and> set (typing_stratum_primes level ty_practice)
                \<inter> set (typing_stratum_primes level ty_main) = {})"
proof (intro conjI impI)
  assume a: "detection_generate_trial_lists listdir base_dir g = Inr ((practice_list, main_list), g')"
  show d: "distinct (detection_stratum_primes level practice_list
                  @ detection_stratum_primes level main_list)"
    unfolding detection_stratum_primes_pairs
    by (rule stratum_distinct[OF detection_primes_distinct[OF assms a]])
  show "set (detection_stratum_primes level practice_list)
          \<inter> set (detection_stratum_primes level main_list) = {}"
    by (rule distinct_append_disjoint[OF d])
next
  assume a: "typing_generate_trial_lists listdir base_dir g = Inr ((ty_practice, ty_main), g'')"
  show d: "distinct (typing_stratum_primes level ty_practice
                  @ typing_stratum_primes level ty_main)"
    unfolding typing_stratum_primes_pairs
    by (rule stratum_distinct[OF typing_primes_distinct[OF assms a]])
  show "set (typing_stratum_primes level ty_practice)
          \<inter> set (typing_stratum_primes level ty_main) = {}"
    by (rule distinct_append_disjoint[OF d])
qed

lemma detection_zero_run_succeeds:
  "\<exists>p m g'. detection_generate_trial_lists full_listdir ''exp'' zero_rng = Inr ((p, m), g')
            \<and> length p = 14 \<and> length m = 98"
proof (cases "detection_generate_trial_lists full_listdir ''exp'' zero_rng")
  case (Inl e)
  with detection_zero_run show ?thesis by (simp add: detection_mask_pairs_def)
next
  case (Inr r)
  obtain p m g' where r: "r = ((p, m), g')" by (metis surj_pair)
  from detection_zero_run have "length p = 14 \<and> length m = 98"
    unfolding Inr r detection_mask_pairs_def
    by (auto dest: arg_cong[where f = length])
  with Inr r show ?thesis by blast
qed

lemma typing_zero_run_succeeds:
  "\<exists>p m g'. typing_generate_trial_lists full_listdir ''exp'' zero_rng = Inr ((p, m), g')
            \<and> length p = 8 \<and> length m = 8"
proof (cases "typing_generate_trial_lists full_listdir ''exp'' zero_rng")
  case (Inl e)
  with typing_zero_run show ?thesis by (simp add: typing_mask_pairs_def)
next
  case (Inr r)
  obtain p m g' where r: "r = ((p, m), g')" by (metis surj_pair)
  from typing_zero_run have "length p = 8 \<and> length m = 8"
    unfolding Inr r typing_mask_pairs_def
    by (auto dest: arg_cong[where f = length])
  with Inr r show ?thesis by blast
qed

theorem control_primes_without_replacement_witness:
  "(\<exists>p m g'. detection_generate_trial_lists full_listdir ''exp'' zero_rng = Inr ((p, m), g')
      \<and> length p = 14 \<and> length m = 98
      \<and> distinct (detection_stratum_primes ''0.3'' p @ detection_stratum_primes ''0.3'' m)
      \<and> set (detection_stratum_primes ''0.3'' p) \<inter> set (detection_stratum_primes ''0.3'' m) = {})
   \<and> (\<exists>p m g'. typing_generate_trial_lists full_listdir ''exp'' zero_rng = Inr ((p, m), g')
      \<and> length p = 8 \<and> length m = 8
      \<and> distinct (typing_stratum_primes ''0.3'' p @ typing_stratum_primes ''0.3'' m)
      \<and> set (typing_stratum_primes ''0.3'' p) \<inter> set (typing_stratum_primes ''0.3'' m) = {})"
proof -
  from detection_zero_run_succeeds obtain p m g' where
    d: "detection_generate_trial_lists full_listdir ''exp'' zero_rng = Inr ((p, m), g')"
    and dl: "length p = 14 \<and> length m = 98" by blast
  from typing_zero_run_succeeds obtain tp tm tg where
    t: "typing_generate_trial_lists full_listdir ''exp'' zero_rng = Inr ((tp, tm), tg)"
    and tl: "length tp = 8 \<and> length tm = 8" by blast
  have "(detection_generate_trial_lists full_listdir ''exp'' zero_rng = Inr ((p, m), g')
          \<longrightarrow> distinct (detection_stratum_primes ''0.3'' p @ detection_stratum_primes ''0.3'' m)
            \<and> set (detection_stratum_primes ''0.3'' p)
                \<inter> set (detection_stratum_primes ''0.3'' m) = {})
       \<and> (typing_generate_trial_lists full_listdir ''exp'' zero_rng = Inr ((tp, tm), tg)
          \<longrightarrow> distinct (typing_stratum_primes ''0.3'' tp @ typing_stratum_primes ''0.3'' tm)
            \<and> set (typing_stratum_primes ''0.3'' tp)
                \<inter> set (typing_stratum_primes ''0.3'' tm) = {})"
    by (rule control_primes_without_replacement) (rule full_listdir_distinct)
  with d t dl tl show ?thesis by blast
qed

text \<open>
  C8. When the folder of some compression level holds fewer usable files than the
  practice count plus the main count, \<open>generate_trial_lists\<close> of either control
  experiment ends in an error for every random source: no practice list and no main list
  is returned.
\<close>

theorem too_few_files_abort:
  "(level \<in> set detection_COMPRESSION_LEVELS
    \<and> get_files_from_dir listdir (path_join (path_join base_dir ''audio'') level) = Some files
    \<and> length files < N_PRACTICE_REPS_PER_LEVEL + N_MAIN_REPS_PER_LEVEL
    \<longrightarrow> (\<exists>e. detection_generate_trial_lists listdir base_dir g = Inl e))
   \<and> (level \<in> set typing_COMPRESSION_LEVELS
    \<and> get_files_from_dir listdir (path_join (path_join base_dir ''audio'') level) = Some files
    \<and> length files < N_PRACTICE_WORDS_PER_FOLDER + N_MAIN_WORDS_PER_FOLDER
    \<longrightarrow> (\<exists>e. typing_generate_trial_lists listdir base_dir g = Inl e))"
proof (intro conjI impI)
  assume "level \<in> set detection_COMPRESSION_LEVELS
    \<and> get_files_from_dir listdir (path_join (path_join base_dir ''audio'') level) = Some files
    \<and> length files < N_PRACTICE_REPS_PER_LEVEL + N_MAIN_REPS_PER_LEVEL"
  then show "\<exists>e. detection_generate_trial_lists listdir base_dir g = Inl e"
    unfolding detection_generate_trial_lists_def
    by (elim conjE) (rule generate_with_not_enough)
next
  assume "level \<in> set typing_COMPRESSION_LEVELS
    \<and> get_files_from_dir listdir (path_join (path_join base_dir ''audio'') level) = Some files
    \<and> length files < N_PRACTICE_WORDS_PER_FOLDER + N_MAIN_WORDS_PER_FOLDER"
  then show "\<exists>e. typing_generate_trial_lists listdir base_dir g = Inl e"
    unfolding typing_generate_trial_lists_def
    by (elim conjE) (rule generate_with_not_enough)
qed

lemma short_listdir_files:
  "get_files_from_dir (short_listdir n) (path_join (path_join ''exp'' ''audio'') ''0.3'')
     = Some (take n audio_words)"
proof -
  have "\<not> startswith_dot f" if "f \<in> set (take n audio_words)" for f
  proof -
    from that have "f \<in> set audio_words" by (rule in_set_takeD)
    then show ?thesis by (auto simp: audio_words_def startswith_dot_def)
  qed
  then have "filter (\<lambda>f. \<not> startswith_dot f) (take n audio_words) = take n audio_words"
    by (intro filter_True) blast
  then show ?thesis
    by (simp add: get_files_from_dir_def short_listdir_def path_join_def)
qed

theorem too_few_files_abort_witness:
  "(\<exists>e. detection_generate_trial_lists (short_listdir 5) ''exp'' zero_rng = Inl e)
   \<and> (\<exists>e. typing_generate_trial_lists (short_listdir 1) ''exp'' zero_rng = Inl e)"
proof -
  have a: "''0.3'' \<in> set detection_COMPRESSION_LEVELS"
    by (simp add: detection_COMPRESSION_LEVELS_def)
  have b: "''0.3'' \<in> set typing_COMPRESSION_LEVELS"
    by (simp add: typing_COMPRESSION_LEVELS_def)
  have c: "length (take 5 audio_words) < N_PRACTICE_REPS_PER_LEVEL + N_MAIN_REPS_PER_LEVEL"
    by (simp add: audio_words_def N_PRACTICE_REPS_PER_LEVEL_def N_MAIN_REPS_PER_LEVEL_def)
  have d: "length (take 1 audio_words) < N_PRACTICE_WORDS_PER_FOLDER + N_MAIN_WORDS_PER_FOLDER"
    by (simp add: audio_words_def N_PRACTICE_WORDS_PER_FOLDER_def N_MAIN_WORDS_PER_FOLDER_def)
  from too_few_files_abort
    [of "''0.3''" "short_listdir 5" "''exp''" "take 5 audio_words" zero_rng]
    a c short_listdir_files[of 5]
  have 1: "\<exists>e. detection_generate_trial_lists (short_listdir 5) ''exp'' zero_rng = Inl e"
    by blast
  from too_few_files_abort
    [of "''0.3''" "short_listdir 1" "''exp''" "take 1 audio_words" zero_rng]
    b d short_listdir_files[of 1]
  have 2: "\<exists>e. typing_generate_trial_lists (short_listdir 1) ''exp'' zero_rng = Inl e"
    by blast
  from 1 2 show ?thesis by blast
qed

subsection \<open>The forced-choice experiment\<close>

lemma pgen_bind_Inr:
  "pgen_bind m f g = Some (Inr r) \<longleftrightarrow>
     (\<exists>x g'. m g = Some (Inr (x, g')) \<and> f x g' = Some (Inr r))"
  by (auto simp: pgen_bind_def split: option.splits sum.splits)

lemma pgen_ret_Inr: "pgen_ret x g = Some (Inr r) \<longleftrightarrow> r = (x, g)"
  by (auto simp: pgen_ret_def)

lemma lift_Inr: "lift m g = Some (Inr r) \<longleftrightarrow> m g = Inr r"
  by (simp add: lift_def)

lemma redraw_differs_aux:
  assumes "redraw pool first second g = Some y"
  shows "\<forall>s g'. y = Inr (s, g') \<longrightarrow> s \<noteq> first"
proof (rule redraw.raw_induct
    [where P = "\<lambda>pool first second g y. \<forall>s g'. y = Inr (s, g') \<longrightarrow> s \<noteq> first"])
  show "redraw pool first second g = Some y" by (rule assms)
next
  fix r :: "string list \<Rightarrow> string \<Rightarrow> string \<Rightarrow> rng \<Rightarrow> (py_error + string \<times> rng) option"
  fix pool first second g y
  assume IH: "\<And>p f s g y. r p f s g = Some y \<Longrightarrow> \<forall>s' g'. y = Inr (s', g') \<longrightarrow> s' \<noteq> f"
  assume eq: "(if first = second
      then case choice pool g of Inl e \<Rightarrow> Some (Inl e)
           | Inr (second', g') \<Rightarrow> r pool first second' g'
      else Some (Inr (second, g))) = Some y"
  show "\<forall>s g'. y = Inr (s, g') \<longrightarrow> s \<noteq> first"
  proof (cases "first = second")
    case False
    with eq have "y = Inr (second, g)" by simp
    with False show ?thesis by auto
  next
    case True
    show ?thesis
    proof (cases "choice pool g")
      case (Inl e)
      with True eq show ?thesis by auto
    next
      case (Inr x)
      obtain second' g1 where x: "x = (second', g1)" by (cases x)
      from True Inr x eq have "r pool first second' g1 = Some y" by simp
      then show ?thesis by (rule IH)
    qed
  qed
qed

lemma pgen_bindE:
  assumes "pgen_bind m f g = Some (Inr r)"
  obtains x g1 where "m g = Some (Inr (x, g1))" and "f x g1 = Some (Inr r)"
  using assms unfolding pgen_bind_Inr by blast

lemma redraw_differs:
  "redraw pool first second g = Some (Inr (s, g')) \<Longrightarrow> s \<noteq> first"
  using redraw_differs_aux by blast

lemma fc_build_trial_differs:
  assumes "fc_build_trial mask_list babbling_list all_prime_words prime_list i g
             = Some (Inr (t, g'))"
  shows "fc_distractor_word t \<noteq> fc_correct_word t \<and> fc_mask2_file t \<noteq> fc_mask1_file t"
  using assms
  unfolding fc_build_trial_def Let_def pgen_bind_Inr pgen_ret_Inr lift_Inr
  by (auto dest: redraw_differs)

lemma fc_trials_loop_differs:
  assumes body: "\<And>i g t g'. body i g = Some (Inr (t, g')) \<Longrightarrow> Q t"
  shows "fc_trials_loop body is g = Some (Inr (ts, g')) \<Longrightarrow> t \<in> set ts \<Longrightarrow> Q t"
proof (induction "is" arbitrary: g ts g')
  case Nil
  then show ?case by (simp add: pgen_ret_Inr)
next
  case (Cons i rest)
  from Cons.prems(1) obtain t1 g1 ts1 g2 where
    b: "body i g = Some (Inr (t1, g1))"
    and r: "fc_trials_loop body rest g1 = Some (Inr (ts1, g2))"
    and ts: "ts = t1 # ts1"
    by (auto simp: pgen_bind_Inr pgen_ret_Inr)
  from Cons.prems(2) ts have "t = t1 \<or> t \<in> set ts1" by simp
  then show ?case
  proof
    assume "t = t1" with body[OF b] show ?thesis by simp
  next
    assume "t \<in> set ts1" with Cons.IH[OF r] show ?thesis by simp
  qed
qed

lemma generate_trial_list_built:
  assumes "generate_trial_list listdir base_dir g = Some (Inr (trials, g'))"
  shows "\<exists>mask_list babbling_list all_prime_words prime_list built g1 g2.
           fc_trials_loop (fc_build_trial mask_list babbling_list all_prime_words prime_list)
             [0..<N_TOTAL_TRIALS] g1 = Some (Inr (built, g2))
         \<and> shuffle built g2 = Inr (trials, g')"
  using assms unfolding generate_trial_list_def Let_def
  apply (elim pgen_bindE)
  apply (simp add: pgen_raise_def del: split_paired_Ex split: if_splits)
  apply (elim pgen_bindE)
  apply (simp only: lift_Inr)
  apply blast
  done

lemma forced_choice_counting_run:
  "fc_word_pairs (generate_trial_list fc_listdir ''exp'' counting_rng) =
     Some (Inr [(''happy'', ''sad''), (''table'', ''happy''), (''sad'', ''happy''),
                (''table'', ''sad''), (''sad'', ''table''), (''table'', ''sad''),
                (''happy'', ''table''), (''sad'', ''happy''), (''happy'', ''sad''),
                (''happy'', ''table'')])"
  by code_simp

text \<open>
  C9, as stated, fails for forced_choice.py: its primes are drawn with
  \<open>random.choices\<close>, with replacement, and practice and main are two slices of one
  list. With one file in the folder of positive primes, that file is the prime of a
  practice trial and of three main trials.
\<close>

theorem forced_choice_primes_repeat:
  "fc_phase_primes ''positive'' (forced_choice_lists fc_listdir ''exp'' counting_rng) =
     Some (Inr ([''happy_compressed.wav''],
                [''happy_compressed.wav'', ''happy_compressed.wav'', ''happy_compressed.wav'']))"
  by code_simp

lemma generate_trial_list_all:
  assumes run: "generate_trial_list listdir base_dir g = Some (Inr (trials, g'))"
      and t: "t \<in> set trials"
  shows "fc_distractor_word t \<noteq> fc_correct_word t \<and> fc_mask2_file t \<noteq> fc_mask1_file t"
proof -
  from generate_trial_list_built[OF run] obtain ml bl ws pl built g1 g2 where
    loop: "fc_trials_loop (fc_build_trial ml bl ws pl) [0..<N_TOTAL_TRIALS] g1
             = Some (Inr (built, g2))"
    and sh: "shuffle built g2 = Inr (trials, g')" by blast
  from shuffle_mset[OF sh] have "set trials = set built" by (rule mset_eq_setD)
  with t have tb: "t \<in> set built" by simp
  show ?thesis
    by (rule fc_trials_loop_differs[where body = "fc_build_trial ml bl ws pl",
          OF fc_build_trial_differs loop tb])
qed

text \<open>
  C7. In every trial of a list that \<open>generate_trial_list\<close> of forced_choice.py
  returns, the distractor word differs from the correct word. (The generator returns a
  list only when the master word list holds at least two words; with fewer it quits.)
\<close>

theorem distractor_differs_from_correct:
  assumes "generate_trial_list listdir base_dir g = Some (Inr (trials, g'))"
      and "t \<in> set trials"
  shows "fc_distractor_word t \<noteq> fc_correct_word t"
  using generate_trial_list_all[OF assms] by simp

theorem distractor_differs_from_correct_witness:
  "\<exists>trials g'. generate_trial_list fc_listdir ''exp'' counting_rng = Some (Inr (trials, g'))
     \<and> length trials = 10
     \<and> fc_distractor_word (hd trials) \<noteq> fc_correct_word (hd trials)"
proof -
  obtain trials g' where
    run: "generate_trial_list fc_listdir ''exp'' counting_rng = Some (Inr (trials, g'))"
    and len: "length trials = 10"
  proof (cases "generate_trial_list fc_listdir ''exp'' counting_rng")
    case None
    with forced_choice_counting_run show ?thesis by (simp add: fc_word_pairs_def)
  next
    case (Some r)
    show ?thesis
    proof (cases r)
      case (Inl e)
      with Some forced_choice_counting_run show ?thesis by (simp add: fc_word_pairs_def)
    next
      case (Inr x)
      obtain ts g1 where x: "x = (ts, g1)" by (cases x)
      from forced_choice_counting_run have "length ts = 10"
        unfolding Some Inr x fc_word_pairs_def by (auto dest: arg_cong[where f = length])
      with Some Inr x that show ?thesis by blast
    qed
  qed
  from len have "hd trials \<in> set trials" by (cases trials) auto
  from distractor_differs_from_correct[OF run this] run len show ?thesis by blast
qed

text \<open>The generators that do compare the two masks: forced_choice.py and gemini_code_v1.py.\<close>

lemma forced_choice_masks_differ:
  assumes "generate_trial_list listdir base_dir g = Some (Inr (trials, g'))"
      and "t \<in> set trials"
  shows "fc_mask2_file t \<noteq> fc_mask1_file t"
  using generate_trial_list_all[OF assms] by simp

lemma run_trial_masks_differ:
  assumes "run_trial_masks mask_files g = Inr ((m1, m2), g')"
  shows "m2 \<noteq> m1"
proof -
  from assms obtain g1 where
    "choice (filter (\<lambda>f. f \<noteq> m1) mask_files) g1 = Inr (m2, g')"
    by (auto simp: run_trial_masks_def gen_bind_Inr gen_ret_Inr)
  from choice_Inr[OF this] show ?thesis by simp
qed

end
